theory Spec2Isabelle
  imports Complex_Main "HOL-Library.Log_Nat"
begin

section \<open>JavaScript strings and values\<close>

text \<open>
  A JavaScript string is a sequence of UTF-16 code units. The model keeps the code units
  as natural numbers, so that the byte-order mark U+FEFF, the NUL character and the
  white space of \<^verbatim>\<open>String.prototype.trim\<close> are the code units the program sees.
  \<open>js\<close> turns an ASCII literal of the source into its code units.
\<close>

type_synonym jsstring = "nat list"

definition js :: "string \<Rightarrow> jsstring" where
  "js s = map of_char s"

definition NUL :: nat where "NUL = 0"
definition LF :: nat where "LF = 10"
definition CR :: nat where "CR = 13"
definition SPACE :: nat where "SPACE = 32"
definition DQUOTE :: nat where "DQUOTE = 34"
definition COMMA :: nat where "COMMA = 44"
definition BOM :: nat where "BOM = 65279"

definition CRLF :: jsstring where
  "CRLF = [CR, LF]"

text \<open>
  White space and line terminators of ECMAScript, the code units \<^verbatim>\<open>trim()\<close> removes:
  TAB, LF, VT, FF, CR, SP, NBSP, U+1680, U+2000..U+200A, U+2028, U+2029, U+202F, U+205F,
  U+3000 and U+FEFF.
\<close>

definition isWhiteSpace :: "nat \<Rightarrow> bool" where
  "isWhiteSpace c =
     (c \<in> set [9, 10, 11, 12, 13, 32, 160, 5760, 8232, 8233, 8239, 8287, 12288, 65279]
      \<or> (8192 \<le> c \<and> c \<le> 8202))"

definition trim :: "jsstring \<Rightarrow> jsstring" where
  "trim s = rev (dropWhile isWhiteSpace (rev (dropWhile isWhiteSpace s)))"

text \<open>
  \<^verbatim>\<open>toLowerCase()\<close> on one code unit: A..Z and the Latin-1 capitals U+00C0..U+00DE
  (but not the multiplication sign U+00D7) move by 32. Code units above U+00FF are left
  as they are: the Unicode case tables beyond Latin-1 are not part of the model.
\<close>

definition lowerUnit :: "nat \<Rightarrow> nat" where
  "lowerUnit c =
     (if (65 \<le> c \<and> c \<le> 90) \<or> (192 \<le> c \<and> c \<le> 222 \<and> c \<noteq> 215) then c + 32 else c)"

definition toLowerCase :: "jsstring \<Rightarrow> jsstring" where
  "toLowerCase s = map lowerUnit s"

text \<open>\<^verbatim>\<open>s.includes(sub)\<close>: \<open>sub\<close> occurs in \<open>s\<close> as a contiguous run.\<close>

fun includesStr :: "jsstring \<Rightarrow> jsstring \<Rightarrow> bool" where
  "includesStr [] sub = (sub = [])"
| "includesStr (c # cs) sub = (take (length sub) (c # cs) = sub \<or> includesStr cs sub)"

text \<open>\<^verbatim>\<open>parts.join(sep)\<close>.\<close>

fun join :: "jsstring \<Rightarrow> jsstring list \<Rightarrow> jsstring" where
  "join sep [] = []"
| "join sep [x] = x"
| "join sep (x # y # ys) = x @ sep @ join sep (y # ys)"

text \<open>
  The values a property of a row can hold. \<open>Other t\<close> stands for any value that is not
  undefined, null, a boolean or a string (a number, an object): it is given by the text
  \<^verbatim>\<open>String(value)\<close> converts it to.
\<close>

datatype jsval = Undefined | Null | Bool bool | Str jsstring | Other jsstring

text \<open>\<^verbatim>\<open>String(value)\<close>.\<close>

fun toString :: "jsval \<Rightarrow> jsstring" where
  "toString Undefined = js ''undefined''"
| "toString Null = js ''null''"
| "toString (Bool b) = (if b then js ''true'' else js ''false'')"
| "toString (Str s) = s"
| "toString (Other t) = t"

text \<open>\<^verbatim>\<open>value == null\<close>: true of null and of undefined only.\<close>

fun isNullish :: "jsval \<Rightarrow> bool" where
  "isNullish Undefined = True"
| "isNullish Null = True"
| "isNullish _ = False"

text \<open>\<^verbatim>\<open>value ?? ''\<close>.\<close>

definition orEmpty :: "jsval \<Rightarrow> jsval" where
  "orEmpty v = (if isNullish v then Str [] else v)"

section \<open>The CSV field escaper (saveProfilesCsv.js, esc)\<close>

text \<open>\<^verbatim>\<open>.replace(/\u0000/g, '')\<close>: every NUL code unit is dropped.\<close>

fun replaceNul :: "jsstring \<Rightarrow> jsstring" where
  "replaceNul [] = []"
| "replaceNul (c # cs) = (if c = NUL then replaceNul cs else c # replaceNul cs)"

text \<open>
  \<^verbatim>\<open>.replace(/\r?\n/g, ' ')\<close>: scanning from the left, a CR followed by LF, or an LF
  alone, becomes one space; a CR that no LF follows stays.
\<close>

fun replaceLineBreaks :: "jsstring \<Rightarrow> jsstring" where
  "replaceLineBreaks [] = []"
| "replaceLineBreaks [c] = (if c = LF then [SPACE] else [c])"
| "replaceLineBreaks (c # d # cs) =
     (if c = LF then SPACE # replaceLineBreaks (d # cs)
      else if c = CR \<and> d = LF then SPACE # replaceLineBreaks cs
      else c # replaceLineBreaks (d # cs))"

text \<open>\<^verbatim>\<open>.replace(/"/g, '""')\<close>: every double quote is written twice.\<close>

fun replaceQuotes :: "jsstring \<Rightarrow> jsstring" where
  "replaceQuotes [] = []"
| "replaceQuotes (c # cs) =
     (if c = DQUOTE then DQUOTE # DQUOTE # replaceQuotes cs else c # replaceQuotes cs)"

definition esc :: "jsval \<Rightarrow> jsstring" where
  "esc v =
     (if isNullish v then [DQUOTE, DQUOTE]
      else let s = trim (replaceLineBreaks (replaceNul (toString v)))
           in [DQUOTE] @ replaceQuotes s @ [DQUOTE])"

text \<open>
  The escaper in the words of the specification, to compare with the code: NUL characters
  stripped, the text cut at every line break (LF, or CR LF) and the pieces joined by one
  space, the surrounding white space trimmed, every double quote doubled, the whole
  wrapped in double quotes.
\<close>

definition stripNul_spec :: "jsstring \<Rightarrow> jsstring" where
  "stripNul_spec s = filter (\<lambda>c. c \<noteq> NUL) s"

fun splitLines :: "jsstring \<Rightarrow> jsstring list" where
  "splitLines [] = [[]]"
| "splitLines [c] = (if c = LF then [[], []] else [[c]])"
| "splitLines (c # d # cs) =
     (if c = LF then [] # splitLines (d # cs)
      else if c = CR \<and> d = LF then [] # splitLines cs
      else (case splitLines (d # cs) of [] \<Rightarrow> [[c]] | l # ls \<Rightarrow> (c # l) # ls))"

definition collapseBreaks_spec :: "jsstring \<Rightarrow> jsstring" where
  "collapseBreaks_spec s = join [SPACE] (splitLines s)"

definition doubleQuotes_spec :: "jsstring \<Rightarrow> jsstring" where
  "doubleQuotes_spec s = concat (map (\<lambda>c. if c = DQUOTE then [DQUOTE, DQUOTE] else [c]) s)"

definition esc_spec :: "jsval \<Rightarrow> jsstring" where
  "esc_spec v =
     (case v of
        Undefined \<Rightarrow> [DQUOTE, DQUOTE]
      | Null \<Rightarrow> [DQUOTE, DQUOTE]
      | _ \<Rightarrow> [DQUOTE]
             @ doubleQuotes_spec (trim (collapseBreaks_spec (stripNul_spec (toString v))))
             @ [DQUOTE])"

text \<open>
  Modelled from the spec: the parser of the round-trip property. No parser of a CSV
  field is part of the export module; this one reads a quoted field as RFC 4180 writes
  it: an opening double quote, the content with every doubled double quote standing for
  one, and a closing double quote that ends the field. Anything else is no field.
\<close>

fun unquote :: "jsstring \<Rightarrow> jsstring option" where
  "unquote [] = None"
| "unquote [c] = (if c = DQUOTE then Some [] else None)"
| "unquote (c # d # cs) =
     (if c = DQUOTE
      then (if d = DQUOTE then map_option (Cons DQUOTE) (unquote cs) else None)
      else map_option (Cons c) (unquote (d # cs)))"

definition parseField :: "jsstring \<Rightarrow> jsstring option" where
  "parseField s =
     (case s of [] \<Rightarrow> None | c # cs \<Rightarrow> if c = DQUOTE then unquote cs else None)"

section \<open>Objects, the file system and the environment\<close>

text \<open>
  A plain data object: its own properties in insertion order. Properties inherited from
  \<^verbatim>\<open>Object.prototype\<close> are outside the model.
\<close>

type_synonym obj = "(jsstring \<times> jsval) list"

definition hasOwnProperty :: "obj \<Rightarrow> jsstring \<Rightarrow> bool" where
  "hasOwnProperty r k = (k \<in> set (map fst r))"

text \<open>\<^verbatim>\<open>r[k]\<close>: undefined when the property is missing.\<close>

definition getProp :: "obj \<Rightarrow> jsstring \<Rightarrow> jsval" where
  "getProp r k = (case map_of r k of None \<Rightarrow> Undefined | Some v \<Rightarrow> v)"

text \<open>\<^verbatim>\<open>r[k] = v\<close>: an existing property keeps its place, a new one goes last.\<close>

fun setProp :: "obj \<Rightarrow> jsstring \<Rightarrow> jsval \<Rightarrow> obj" where
  "setProp [] k v = [(k, v)]"
| "setProp ((k', v') # r) k v = (if k' = k then (k, v) # r else (k', v') # setProp r k v)"

text \<open>\<^verbatim>\<open>Object.keys(r)\<close>.\<close>

definition objectKeys :: "obj \<Rightarrow> jsstring list" where
  "objectKeys r = map fst r"

type_synonym path = jsstring
type_synonym content = "nat list"

text \<open>
  The file system: the content of every file that exists, and the journal of the
  effects that succeeded, oldest first.
\<close>

datatype fs_event = Wrote path content | Appended path content | MadeDir path

record fsys =
  files :: "path \<Rightarrow> content option"
  journal :: "fs_event list"

datatype error =
    ReadFailed path
  | WriteFailed path
  | MkdirFailed path
  | ParseFailed

text \<open>
  What the program takes from Node and from its libraries, none of it code of the
  repository: \<^verbatim>\<open>path.resolve\<close>, \<^verbatim>\<open>path.dirname\<close>, the default destination
  \<^verbatim>\<open>path.resolve(process.cwd(), 'output.csv')\<close>, the first \<^verbatim>\<open>'line'\<close> event of
  \<^verbatim>\<open>readline\<close> on a file's content (none when the stream closes before a line),
  \<^verbatim>\<open>parse\<close> of csv-parse with the options of the migration (none when it throws),
  \<^verbatim>\<open>stringify\<close> of csv-stringify with a header, the given columns and a byte-order
  mark, and whether a directory can be made and a file written (a rejected promise
  otherwise).
\<close>

record node =
  resolve :: "path \<Rightarrow> path"
  dirname :: "path \<Rightarrow> path"
  defaultOutput :: path
  readlineFirst :: "content \<Rightarrow> jsstring option"
  csvParse :: "content \<Rightarrow> obj list option"
  csvStringify :: "obj list \<Rightarrow> jsstring list \<Rightarrow> content"
  canMkdir :: "path \<Rightarrow> bool"
  canWrite :: "path \<Rightarrow> bool"

definition existsSync :: "fsys \<Rightarrow> path \<Rightarrow> bool" where
  "existsSync fs p = (files fs p \<noteq> None)"

definition readFile :: "fsys \<Rightarrow> path \<Rightarrow> error + content" where
  "readFile fs p = (case files fs p of None \<Rightarrow> Inl (ReadFailed p) | Some c \<Rightarrow> Inr c)"

definition mkdir :: "node \<Rightarrow> fsys \<Rightarrow> path \<Rightarrow> error + fsys" where
  "mkdir nd fs d =
     (if canMkdir nd d then Inr (fs\<lparr>journal := journal fs @ [MadeDir d]\<rparr>)
      else Inl (MkdirFailed d))"

definition writeFile :: "node \<Rightarrow> fsys \<Rightarrow> path \<Rightarrow> content \<Rightarrow> error + fsys" where
  "writeFile nd fs p d =
     (if canWrite nd p
      then Inr (fs\<lparr>files := (files fs)(p \<mapsto> d), journal := journal fs @ [Wrote p d]\<rparr>)
      else Inl (WriteFailed p))"

definition appendFile :: "node \<Rightarrow> fsys \<Rightarrow> path \<Rightarrow> content \<Rightarrow> error + fsys" where
  "appendFile nd fs p d =
     (if canWrite nd p
      then Inr (fs\<lparr>files := (files fs)(p \<mapsto> (case files fs p of None \<Rightarrow> [] | Some old \<Rightarrow> old) @ d),
                   journal := journal fs @ [Appended p d]\<rparr>)
      else Inl (WriteFailed p))"

section \<open>The CSV exporter (saveProfilesCsv.js)\<close>

record column =
  key :: jsstring
  header :: jsstring

definition BASE_COLUMNS :: "column list" where
  "BASE_COLUMNS =
     [\<lparr>key = js ''name'', header = js ''Full Name''\<rparr>,
      \<lparr>key = js ''first_name'', header = js ''First Name''\<rparr>,
      \<lparr>key = js ''last_name'', header = js ''Last Name''\<rparr>,
      \<lparr>key = js ''title'', header = js ''Title''\<rparr>,
      \<lparr>key = js ''company'', header = js ''Company''\<rparr>,
      \<lparr>key = js ''person_location'', header = js ''Person Location''\<rparr>,
      \<lparr>key = js ''person_title'', header = js ''LinkedIn URL''\<rparr>]"

definition EXT_WEBSITE :: "column list" where
  "EXT_WEBSITE = BASE_COLUMNS @ [\<lparr>key = js ''domain'', header = js ''Website''\<rparr>]"

definition readHeaderLine :: "node \<Rightarrow> fsys \<Rightarrow> path \<Rightarrow> jsstring option" where
  "readHeaderLine nd fs p =
     (case files fs p of None \<Rightarrow> None | Some c \<Rightarrow> readlineFirst nd c)"

definition chooseColumnsForExistingHeader :: "jsstring option \<Rightarrow> column list" where
  "chooseColumnsForExistingHeader headerLine =
     (let lc = toLowerCase (case headerLine of None \<Rightarrow> [] | Some l \<Rightarrow> l);
          hasWebsite = (includesStr lc (js ''website'') \<or> includesStr lc (js ''domain''))
      in if hasWebsite then EXT_WEBSITE else BASE_COLUMNS)"

definition ensureKeys :: "column list \<Rightarrow> obj \<Rightarrow> obj" where
  "ensureKeys cols r =
     fold (\<lambda>c r'. if \<not> hasOwnProperty r' (key c) then setProp r' (key c) (Str []) else r') cols r"

definition ensureKeysForColumns :: "obj list \<Rightarrow> column list \<Rightarrow> obj list" where
  "ensureKeysForColumns rows cols = map (ensureKeys cols) rows"

text \<open>The options of a call; \<open>None\<close> is a property left undefined.\<close>

record save_opts =
  filePath :: "path option"
  append_opt :: "bool option"
  includeBOM :: "bool option"

text \<open>\<^verbatim>\<open>filePath = path.resolve(process.cwd(), 'output.csv')\<close> when the option is undefined.\<close>

definition destination :: "node \<Rightarrow> save_opts \<Rightarrow> path" where
  "destination nd opts = (case filePath opts of None \<Rightarrow> defaultOutput nd | Some p \<Rightarrow> p)"

text \<open>Lines 87 to 96: the column set a call chooses.\<close>

definition chooseColumns :: "node \<Rightarrow> fsys \<Rightarrow> path \<Rightarrow> column list" where
  "chooseColumns nd fs fp =
     (if existsSync fs fp then chooseColumnsForExistingHeader (readHeaderLine nd fs fp)
      else EXT_WEBSITE)"

definition csvHeader :: "column list \<Rightarrow> jsstring" where
  "csvHeader cols =
     join [COMMA] (map (\<lambda>c. esc (Str (if header c \<noteq> [] then header c else key c))) cols) @ CRLF"

definition csvBody :: "obj list \<Rightarrow> column list \<Rightarrow> jsstring" where
  "csvBody rows cols =
     join CRLF (map (\<lambda>r. join [COMMA] (map (\<lambda>c. esc (orEmpty (getProp r (key c)))) cols)) rows)
     @ CRLF"

text \<open>
  The result of a call: the rows as the call leaves them (the caller's objects, mutated
  in place), the file system, and the promise's outcome.
\<close>

definition saveProfilesCsv ::
  "node \<Rightarrow> obj list option \<Rightarrow> save_opts \<Rightarrow> fsys \<Rightarrow> obj list option \<times> fsys \<times> (error + path)" where
  "saveProfilesCsv nd rows opts fs =
     (let fp = destination nd opts;
          bom = (case includeBOM opts of None \<Rightarrow> True | Some b \<Rightarrow> b)
      in case rows of
           None \<Rightarrow> (rows, fs, Inr (resolve nd fp))
         | Some rs \<Rightarrow>
             if rs = [] then (rows, fs, Inr (resolve nd fp))
             else (case mkdir nd fs (dirname nd fp) of
                 Inl e \<Rightarrow> (rows, fs, Inl e)
               | Inr fs1 \<Rightarrow>
                   let fileExists = existsSync fs1 fp;
                       shouldAppend = (append_opt opts = Some True
                                       \<or> (append_opt opts = None \<and> fileExists));
                       cols = chooseColumns nd fs1 fp;
                       rs' = ensureKeysForColumns rs cols;
                       hdr = csvHeader cols;
                       body = csvBody rs' cols;
                       prefix = (if bom then [BOM] else []);
                       written =
                         (if shouldAppend
                          then (if \<not> fileExists then appendFile nd fs1 fp (prefix @ hdr @ body)
                                else appendFile nd fs1 fp body)
                          else writeFile nd fs1 fp (prefix @ hdr @ body))
                   in (case written of
                         Inl e \<Rightarrow> (Some rs', fs1, Inl e)
                       | Inr fs2 \<Rightarrow> (Some rs', fs2, Inr (resolve nd fp)))))"

section \<open>The header migration (upgradeCsvHeaders.js)\<close>

text \<open>
  An entry of \<^verbatim>\<open>CANONICAL_HEADERS\<close>; \<open>canon_header\<close> is its \<^verbatim>\<open>header\<close> property
  (the name \<open>header\<close> is the field of a column of the exporter).
\<close>

record canonical =
  canon_header :: jsstring
  aliases :: "jsstring list"

definition CANONICAL_HEADERS :: "canonical list" where
  "CANONICAL_HEADERS =
     [\<lparr>canon_header = js ''Full Name'',
       aliases = [js ''Full Name'', js ''Name'', js ''full name'', js ''fullname'', js ''full_name'']\<rparr>,
      \<lparr>canon_header = js ''First Name'',
       aliases = [js ''First Name'', js ''first_name'', js ''first name'', js ''firstname'']\<rparr>,
      \<lparr>canon_header = js ''Last Name'',
       aliases = [js ''Last Name'', js ''last_name'', js ''last name'', js ''lastname'']\<rparr>,
      \<lparr>canon_header = js ''Title'', aliases = [js ''Title'', js ''title'']\<rparr>,
      \<lparr>canon_header = js ''Company'', aliases = [js ''Company'', js ''company'']\<rparr>,
      \<lparr>canon_header = js ''Person Location'',
       aliases = [js ''Person Location'', js ''Location'', js ''person_location'',
                  js ''person location'', js ''location'']\<rparr>,
      \<lparr>canon_header = js ''LinkedIn URL'',
       aliases = [js ''LinkedIn URL'', js ''LinkedIn'', js ''person_title'', js ''linkedin url'',
                  js ''linkedin'']\<rparr>,
      \<lparr>canon_header = js ''Website'',
       aliases = [js ''Website'', js ''domain'', js ''Domain'', js ''domain1'', js ''domain2'',
                  js ''domain3'']\<rparr>]"

text \<open>\<^verbatim>\<open>headers.find(...)\<close>: the first header equal to the name when both are lower-cased.\<close>

definition ciFind :: "jsstring list \<Rightarrow> jsstring \<Rightarrow> jsstring option" where
  "ciFind headers name = find (\<lambda>h. toLowerCase h = toLowerCase name) headers"

text \<open>\<^verbatim>\<open>if (found)\<close>: a header that was found and is not the empty string.\<close>

fun getFirstAliasHeader :: "jsstring list \<Rightarrow> jsstring list \<Rightarrow> jsstring option" where
  "getFirstAliasHeader headers [] = None"
| "getFirstAliasHeader headers (alias # rest) =
     (case ciFind headers alias of
        None \<Rightarrow> getFirstAliasHeader headers rest
      | Some found \<Rightarrow> if found \<noteq> [] then Some found else getFirstAliasHeader headers rest)"

text \<open>The loop of \<^verbatim>\<open>getValue\<close>: the first alias found whose value in the row is not blank.\<close>

fun firstFilled :: "obj \<Rightarrow> jsstring list \<Rightarrow> jsstring list \<Rightarrow> jsval option" where
  "firstFilled row headers [] = None"
| "firstFilled row headers (alias # rest) =
     (case ciFind headers alias of
        None \<Rightarrow> firstFilled row headers rest
      | Some found \<Rightarrow>
          if found \<noteq> [] \<and> \<not> isNullish (getProp row found)
             \<and> trim (toString (getProp row found)) \<noteq> []
          then Some (getProp row found)
          else firstFilled row headers rest)"

definition getValue :: "obj \<Rightarrow> jsstring list \<Rightarrow> jsstring list \<Rightarrow> jsval" where
  "getValue row headers als =
     (case firstFilled row headers als of
        Some v \<Rightarrow> v
      | None \<Rightarrow>
          (case getFirstAliasHeader headers als of
             None \<Rightarrow> Str []
           | Some fallback \<Rightarrow> orEmpty (getProp row fallback)))"

definition canonicalOrder :: "jsstring list" where
  "canonicalOrder = map canon_header CANONICAL_HEADERS"

definition hasEmail :: "jsstring list \<Rightarrow> bool" where
  "hasEmail headers = (js ''email'' \<in> set (map toLowerCase headers))"

text \<open>
  \<^verbatim>\<open>canonicalOrder.every((h, i) => ...)\<close> is evaluated only when the header is long
  enough.
\<close>

definition alreadyCanonical :: "jsstring list \<Rightarrow> bool" where
  "alreadyCanonical headers =
     (\<not> hasEmail headers
      \<and> (if length headers \<ge> length canonicalOrder
         then list_all (\<lambda>(i, h). toLowerCase (headers ! i) = toLowerCase h)
                (enumerate 0 canonicalOrder)
         else False))"

text \<open>
  The body of \<^verbatim>\<open>rows.map\<close>. \<open>usedHeaders\<close> is the one set shared by all rows, so it is
  passed from row to row.
\<close>

definition canonStep ::
  "jsstring list \<Rightarrow> obj \<Rightarrow> canonical \<Rightarrow> obj \<times> jsstring list \<Rightarrow> obj \<times> jsstring list" where
  "canonStep headers row c st =
     (let next = fst st; usedHeaders = snd st;
          actual = getFirstAliasHeader headers (aliases c);
          usedHeaders' = (case actual of None \<Rightarrow> usedHeaders
                          | Some a \<Rightarrow> List.insert (toLowerCase a) usedHeaders)
      in (setProp next (canon_header c) (getValue row headers (aliases c)), usedHeaders'))"

definition restStep :: "obj \<Rightarrow> jsstring list \<Rightarrow> jsstring \<Rightarrow> obj \<Rightarrow> obj" where
  "restStep row usedHeaders h next =
     (let hLower = toLowerCase h
      in if hLower = js ''email'' then next
         else if hLower \<in> set usedHeaders then next
         else setProp next h (orEmpty (getProp row h)))"

definition mapRow :: "jsstring list \<Rightarrow> jsstring list \<Rightarrow> obj \<Rightarrow> obj \<times> jsstring list" where
  "mapRow headers usedHeaders row =
     (let st = fold (canonStep headers row) CANONICAL_HEADERS ([], usedHeaders)
      in (fold (restStep row (snd st)) headers (fst st), snd st))"

fun mapRows :: "jsstring list \<Rightarrow> jsstring list \<Rightarrow> obj list \<Rightarrow> obj list" where
  "mapRows headers usedHeaders [] = []"
| "mapRows headers usedHeaders (row # rows) =
     (let st = mapRow headers usedHeaders row
      in fst st # mapRows headers (snd st) rows)"

definition newRows :: "jsstring list \<Rightarrow> obj list \<Rightarrow> obj list" where
  "newRows headers rows = mapRows headers [] rows"

definition extraHeaders :: "jsstring list \<Rightarrow> jsstring list" where
  "extraHeaders headers =
     filter (\<lambda>h. let hLower = toLowerCase h
                 in if hLower = js ''email'' then False
                    else \<not> list_ex (\<lambda>c. list_ex (\<lambda>a. toLowerCase a = hLower) (aliases c))
                             CANONICAL_HEADERS)
       headers"

definition finalHeaders :: "jsstring list \<Rightarrow> jsstring list" where
  "finalHeaders headers = canonicalOrder @ extraHeaders headers"

record upgrade_result =
  changed :: bool
  columns :: "jsstring list option"
  reason :: "jsstring option"

text \<open>The two writes of a migration that changes the file (lines 109 and 110).\<close>

definition writeMigrated ::
  "node \<Rightarrow> fsys \<Rightarrow> path \<Rightarrow> bool \<Rightarrow> content \<Rightarrow> content \<Rightarrow> jsstring list
     \<Rightarrow> fsys \<times> (error + upgrade_result)" where
  "writeMigrated nd fs full backup raw csv cols =
     (case (if backup then writeFile nd fs (full @ js ''.bak'') raw else Inr fs) of
        Inl e \<Rightarrow> (fs, Inl e)
      | Inr fs1 \<Rightarrow>
          (case writeFile nd fs1 full csv of
             Inl e \<Rightarrow> (fs1, Inl e)
           | Inr fs2 \<Rightarrow> (fs2, Inr \<lparr>changed = True, columns = Some cols, reason = None\<rparr>)))"

text \<open>
  \<open>backup_opt\<close> is the option \<^verbatim>\<open>backup\<close>, true when left undefined. The result is
  the file system after the call and the promise's outcome.
\<close>

definition upgradeCsvHeaders ::
  "node \<Rightarrow> path \<Rightarrow> bool option \<Rightarrow> fsys \<Rightarrow> fsys \<times> (error + upgrade_result)" where
  "upgradeCsvHeaders nd fp backup_opt fs =
     (let backup = (case backup_opt of None \<Rightarrow> True | Some b \<Rightarrow> b);
          full = resolve nd fp
      in case readFile fs full of
           Inl e \<Rightarrow> (fs, Inl e)
         | Inr raw \<Rightarrow>
             (case csvParse nd raw of
                None \<Rightarrow> (fs, Inl ParseFailed)
              | Some rows \<Rightarrow>
                  if rows = []
                  then (fs, Inr \<lparr>changed = False, columns = None, reason = Some (js ''empty'')\<rparr>)
                  else
                    (let headers = objectKeys (hd rows);
                         csv = csvStringify nd (newRows headers rows) (finalHeaders headers)
                     in if alreadyCanonical headers \<and> \<not> hasEmail headers
                        then (fs, Inr \<lparr>changed = False, columns = None,
                                       reason = Some (js ''already-canonical'')\<rparr>)
                        else writeMigrated nd fs full backup raw csv (finalHeaders headers))))"

section \<open>Numbers\<close>

text \<open>
  A Number is an IEEE 754 double. A finite double is modelled as the real it denotes, and
  an arithmetic operation rounds its exact result to the nearest double, ties to the even
  significand: \<open>binade x\<close> is the exponent \<open>e\<close> with \<open>2^e \<le> |x| < 2^(e+1)\<close>, the spacing of
  the doubles around \<open>x\<close> is \<open>2^(e - 52)\<close>, and \<open>2^(-1074)\<close> below the normal range.
  Overflow to Infinity (beyond \<open>2^1024\<close>) and NaN are outside the model.
\<close>

definition roundHalfEven :: "real \<Rightarrow> int" where
  "roundHalfEven q =
     (let f = \<lfloor>q\<rfloor>
      in if q - of_int f < 1 / 2 then f
         else if q - of_int f > 1 / 2 then f + 1
         else if even f then f else f + 1)"

definition binade :: "real \<Rightarrow> int" where
  "binade x =
     (if 1 \<le> \<bar>x\<bar> then int (floorlog 2 (nat \<lfloor>\<bar>x\<bar>\<rfloor>)) - 1
      else - int (floorlog 2 (nat (\<lceil>1 / \<bar>x\<bar>\<rceil> - 1))))"

definition ulpExponent :: "real \<Rightarrow> int" where
  "ulpExponent x = max (binade x) (- 1022) - 52"

definition roundDouble :: "real \<Rightarrow> real" where
  "roundDouble x =
     (if x = 0 then 0
      else of_int (roundHalfEven (x / 2 powi ulpExponent x)) * 2 powi ulpExponent x)"

text \<open>
  An environment variable read as a number: unset or blank, set to text that
  \<^verbatim>\<open>Number\<close> turns into NaN, or set to a number.
\<close>

datatype env_number = Unset | NotNumber | Num real

section \<open>The random delay (randomDelayer.js)\<close>

text \<open>
  \<^verbatim>\<open>SPEED_SCALE = Math.max(0, Number(RAW_SCALE) || 1)\<close>, where \<^verbatim>\<open>RAW_SCALE\<close> is
  \<^verbatim>\<open>SCRAPER_SPEED_SCALE\<close> when it is set and not blank, \<^verbatim>\<open>'0.5'\<close> in the fast mode and
  \<^verbatim>\<open>'1'\<close> otherwise; NaN and 0 are falsy and give 1.
\<close>

definition SPEED_SCALE :: "bool \<Rightarrow> env_number \<Rightarrow> real" where
  "SPEED_SCALE fastMode scraperSpeedScale =
     max 0 (case scraperSpeedScale of
              Unset \<Rightarrow> (if fastMode then 1 / 2 else 1)
            | NotNumber \<Rightarrow> 1
            | Num n \<Rightarrow> if n = 0 then 1 else n)"

text \<open>
  \<^verbatim>\<open>nextDelaySecs(min = 0.5, max = 1)\<close>. \<open>random\<close> is the value \<^verbatim>\<open>Math.random()\<close>
  returns in the call, of which ECMAScript promises that it is a Number with
  \<open>0 \<le> random < 1\<close>; \<open>scale\<close> is the module's \<^verbatim>\<open>SPEED_SCALE\<close>.
\<close>

definition nextDelaySecs :: "real \<Rightarrow> real \<Rightarrow> real option \<Rightarrow> real option \<Rightarrow> real" where
  "nextDelaySecs random scale min_opt max_opt =
     (let minS = (case min_opt of None \<Rightarrow> 1 / 2 | Some m \<Rightarrow> m);
          maxS = (case max_opt of None \<Rightarrow> 1 | Some m \<Rightarrow> m);
          rng = roundDouble (roundDouble (random * roundDouble (maxS - minS)) + minS)
      in roundDouble (rng * scale))"

section \<open>The list-readiness wait (waitForLeadList.js)\<close>

datatype wait_state = Visible | Attached

text \<open>
  The waits of a Playwright page, with their arguments: the selector, the state or the
  count, and the timeout in milliseconds.
\<close>

datatype page_call =
    WaitForSelector jsstring wait_state real
  | WaitForFunction jsstring real real
  | WaitForLoadState jsstring real
  | WaitForTimeout real

text \<open>A page answers each wait: it resolves, or it rejects with an error.\<close>

type_synonym page = "page_call \<Rightarrow> bool"

datatype wait_error = Rejected page_call

text \<open>
  What the module reads from its environment: \<^verbatim>\<open>FAST_MODE\<close>, the variables
  \<^verbatim>\<open>FAST_MIN_ROWS\<close> and \<^verbatim>\<open>SCRAPER_SPEED_SCALE\<close>, and the value \<^verbatim>\<open>Math.random()\<close>
  returns when the settle delay is drawn.
\<close>

record wait_config =
  FAST_MODE :: bool
  FAST_MIN_ROWS :: env_number
  SCRAPER_SPEED_SCALE :: env_number
  random :: real

definition ROW_TITLE :: jsstring where
  "ROW_TITLE =
     js ''a[data-control-name^='' @ [DQUOTE] @ js ''view_lead_panel'' @ [DQUOTE] @ js '']''"

text \<open>
  \<^verbatim>\<open>Math.max(1, Number(process.env.FAST_MIN_ROWS || '5') || 5)\<close> in the fast mode, 10
  otherwise.
\<close>

definition minRows :: "wait_config \<Rightarrow> real" where
  "minRows cfg =
     (if FAST_MODE cfg
      then max 1 (case FAST_MIN_ROWS cfg of
                    Unset \<Rightarrow> 5
                  | NotNumber \<Rightarrow> 5
                  | Num n \<Rightarrow> if n = 0 then 5 else n)
      else 10)"

text \<open>
  \<^verbatim>\<open>waitForLeadList(page, timeout = 10_000)\<close>. The result is the list of the waits the
  function started, in order, and the promise's outcome. The function has no statement
  that logs. The failures of the load-state wait and of the settle delay are swallowed
  (\<^verbatim>\<open>.catch(() => {})\<close>, \<^verbatim>\<open>try { } catch { }\<close>); the first three waits are awaited
  with nothing around them.
\<close>

definition waitForLeadList ::
  "wait_config \<Rightarrow> page \<Rightarrow> real option \<Rightarrow> page_call list \<times> (wait_error + unit)" where
  "waitForLeadList cfg pg timeout_opt =
     (let timeout = (case timeout_opt of None \<Rightarrow> 10000 | Some t \<Rightarrow> t);
          visible = WaitForSelector ROW_TITLE Visible timeout;
          attached = WaitForSelector ROW_TITLE Attached timeout;
          enough = WaitForFunction ROW_TITLE (minRows cfg) timeout;
          loaded = WaitForLoadState (js ''domcontentloaded'') 500;
          scale = SPEED_SCALE (FAST_MODE cfg) (SCRAPER_SPEED_SCALE cfg);
          delaySeconds =
            (if FAST_MODE cfg
             then nextDelaySecs (random cfg) scale (Some (roundDouble (2 / 10)))
                    (Some (roundDouble (6 / 10)))
             else nextDelaySecs (random cfg) scale (Some 2) (Some 5));
          settle = WaitForTimeout (roundDouble (delaySeconds * 1000))
      in if \<not> pg visible then ([visible], Inl (Rejected visible))
         else if \<not> pg attached then ([visible, attached], Inl (Rejected attached))
         else if \<not> pg enough then ([visible, attached, enough], Inl (Rejected enough))
         else ([visible, attached, enough, loaded, settle], Inr ()))"

section \<open>The exporter in the words of the specification\<close>

text \<open>
  A header line holds a marker when \<open>website\<close> or \<open>domain\<close> stands at some position of
  the lower-cased line; a missing line holds none. The column set of a call is the base set with Website when
  the destination does not exist or its first line holds a marker, the base set
  otherwise.
\<close>

definition occursAt :: "jsstring \<Rightarrow> jsstring \<Rightarrow> nat \<Rightarrow> bool" where
  "occursAt marker s i = (take (length marker) (drop i s) = marker)"

definition hasMarker_spec :: "jsstring option \<Rightarrow> bool" where
  "hasMarker_spec line =
     (case line of
        None \<Rightarrow> False
      | Some l \<Rightarrow>
          list_ex (occursAt (js ''website'') (toLowerCase l)) [0..<Suc (length l)]
          \<or> list_ex (occursAt (js ''domain'') (toLowerCase l)) [0..<Suc (length l)])"

definition columnSet_spec :: "node \<Rightarrow> fsys \<Rightarrow> path \<Rightarrow> column list" where
  "columnSet_spec nd fs fp =
     (case files fs fp of
        None \<Rightarrow> EXT_WEBSITE
      | Some c \<Rightarrow> if hasMarker_spec (readlineFirst nd c) then EXT_WEBSITE else BASE_COLUMNS)"

text \<open>The data of a journal entry, and whether data begins with the byte-order mark.\<close>

definition payload :: "fs_event \<Rightarrow> content" where
  "payload ev = (case ev of Wrote p d \<Rightarrow> d | Appended p d \<Rightarrow> d | MadeDir d \<Rightarrow> [])"

definition startsWithBOM :: "content \<Rightarrow> bool" where
  "startsWithBOM d = (case d of [] \<Rightarrow> False | c # _ \<Rightarrow> c = BOM)"

section \<open>The migration in the words of the specification\<close>



text \<open>
  The legacy header of the specification's example, and the row the specification
  expects for a row under that header: the canonical columns in order, Full Name from
  \<open>Name\<close>, Company from \<open>Company\<close>, every other one empty.
\<close>

definition legacyHeaders :: "jsstring list" where
  "legacyHeaders = [js ''Name'', js ''Email'', js ''Company'']"

definition migratedRow_spec :: "obj \<Rightarrow> obj" where
  "migratedRow_spec row =
     [(js ''Full Name'', orEmpty (getProp row (js ''Name''))),
      (js ''First Name'', Str []),
      (js ''Last Name'', Str []),
      (js ''Title'', Str []),
      (js ''Company'', orEmpty (getProp row (js ''Company''))),
      (js ''Person Location'', Str []),
      (js ''LinkedIn URL'', Str []),
      (js ''Website'', Str [])]"

section \<open>Example environments\<close>

text \<open>
  Concrete inputs on which the theorems below are evaluated: a \<^verbatim>\<open>readline\<close> that ends
  the first line at LF or CR, a Node in which every operation succeeds, one in which no
  directory can be made, a file system with no file, and one whose \<^verbatim>\<open>output.csv\<close>
  has a header without a Website column.
\<close>

definition firstLine :: "content \<Rightarrow> jsstring option" where
  "firstLine c = (if c = [] then None else Some (takeWhile (\<lambda>u. u \<noteq> LF \<and> u \<noteq> CR) c))"

definition plainNode :: node where
  "plainNode =
     \<lparr>resolve = (\<lambda>p. p), dirname = (\<lambda>p. js ''.''), defaultOutput = js ''output.csv'',
      readlineFirst = firstLine, csvParse = (\<lambda>c. None), csvStringify = (\<lambda>rows cols. []),
      canMkdir = (\<lambda>d. True), canWrite = (\<lambda>p. True)\<rparr>"

definition noOpts :: save_opts where
  "noOpts = \<lparr>filePath = None, append_opt = None, includeBOM = None\<rparr>"

definition emptyFs :: fsys where
  "emptyFs = \<lparr>files = (\<lambda>p. None), journal = []\<rparr>"

definition lockedNode :: node where
  "lockedNode = plainNode\<lparr>canMkdir := (\<lambda>d. False)\<rparr>"

definition legacyFs :: fsys where
  "legacyFs =
     \<lparr>files = (\<lambda>p. if p = js ''output.csv''
                      then Some (js ''Full Name,Title'' @ CRLF @ js ''Ann,website'' @ CRLF)
                      else None),
      journal = []\<rparr>"

definition overwriteOpts :: save_opts where
  "overwriteOpts = \<lparr>filePath = None, append_opt = Some False, includeBOM = None\<rparr>"

text \<open>
  For the migration: a legacy file and a canonical file with the records csv-parse reads
  from them, a writer of unquoted fields in the place of csv-stringify, a Node that
  parses the two files, and one in which the backup cannot be written. For the wait: the
  configuration of the normal mode, and a page on which the rows never reach the count.
\<close>

definition legacyCsv :: content where
  "legacyCsv = js ''Name,Email,Company'' @ CRLF @ js ''Ann Lee,ann@x.io,Acme'' @ CRLF"

definition legacyRows :: "obj list" where
  "legacyRows =
     [[(js ''Name'', Str (js ''Ann Lee'')), (js ''Email'', Str (js ''ann@x.io'')),
       (js ''Company'', Str (js ''Acme''))]]"

definition canonicalCsv :: content where
  "canonicalCsv =
     js ''Full Name,First Name,Last Name,Title,Company,Person Location,LinkedIn URL,Website,Notes''
     @ CRLF @ js ''Ann Lee,Ann,Lee,CTO,Acme,Oslo,,acme.io,met in May'' @ CRLF"

definition canonicalRows :: "obj list" where
  "canonicalRows =
     [[(js ''Full Name'', Str (js ''Ann Lee'')), (js ''First Name'', Str (js ''Ann'')),
       (js ''Last Name'', Str (js ''Lee'')), (js ''Title'', Str (js ''CTO'')),
       (js ''Company'', Str (js ''Acme'')), (js ''Person Location'', Str (js ''Oslo'')),
       (js ''LinkedIn URL'', Str []), (js ''Website'', Str (js ''acme.io'')),
       (js ''Notes'', Str (js ''met in May''))]]"

definition plainStringify :: "obj list \<Rightarrow> jsstring list \<Rightarrow> content" where
  "plainStringify rows cols =
     [BOM] @ join CRLF (map (join [COMMA]) (cols # map (\<lambda>r. map (\<lambda>c. toString (getProp r c)) cols) rows))
     @ CRLF"

definition migrationNode :: node where
  "migrationNode =
     plainNode\<lparr>csvParse := (\<lambda>c. if c = legacyCsv then Some legacyRows
                               else if c = canonicalCsv then Some canonicalRows else None),
               csvStringify := plainStringify\<rparr>"

definition noBackupNode :: node where
  "noBackupNode = migrationNode\<lparr>canWrite := (\<lambda>p. p \<noteq> js ''people.csv.bak'')\<rparr>"

definition migrationFs :: fsys where
  "migrationFs =
     \<lparr>files = (\<lambda>p. if p = js ''people.csv'' then Some legacyCsv
                     else if p = js ''clean.csv'' then Some canonicalCsv else None),
      journal = []\<rparr>"

definition normalConfig :: wait_config where
  "normalConfig =
     \<lparr>FAST_MODE = False, FAST_MIN_ROWS = Unset, SCRAPER_SPEED_SCALE = Unset, random = 1 / 2\<rparr>"

definition stalledPage :: page where
  "stalledPage c = (case c of WaitForFunction sel n t \<Rightarrow> False | _ \<Rightarrow> True)"

text \<open>The greatest double below 1, as a value of \<^verbatim>\<open>Math.random()\<close>.\<close>

definition lastDraw :: real where
  "lastDraw = 1 - 1 / 2 ^ 53"

section \<open>Properties of the escaper\<close>

lemma replaceNul_filter: "replaceNul s = stripNul_spec s"
  by (induction s) (simp_all add: stripNul_spec_def)

lemma splitLines_nonempty: "splitLines s \<noteq> []"
  by (induction s rule: splitLines.induct) (simp_all split: list.splits)

lemma join_cons_head: "join sep ((c # l) # ls) = c # join sep (l # ls)"
  by (cases ls) simp_all

lemma replaceLineBreaks_split: "replaceLineBreaks s = collapseBreaks_spec s"
proof (induction s rule: splitLines.induct)
  case 1
  show ?case by (simp add: collapseBreaks_spec_def)
next
  case (2 c)
  show ?case by (simp add: collapseBreaks_spec_def)
next
  case (3 c d cs)
  obtain l ls where sl: "splitLines (d # cs) = l # ls"
    using splitLines_nonempty [of "d # cs"] by (cases "splitLines (d # cs)") auto
  obtain l' ls' where sl': "splitLines cs = l' # ls'"
    using splitLines_nonempty [of cs] by (cases "splitLines cs") auto
  show ?case
  proof (cases "c = LF")
    case True
    with 3 sl show ?thesis by (simp add: collapseBreaks_spec_def)
  next
    case False
    show ?thesis
    proof (cases "c = CR \<and> d = LF")
      case True
      with False 3 sl' show ?thesis by (simp add: collapseBreaks_spec_def)
    next
      case no: False
      from False no 3 have "replaceLineBreaks (d # cs) = join [SPACE] (splitLines (d # cs))"
        by (simp add: collapseBreaks_spec_def)
      with False no sl show ?thesis
        by (auto simp add: collapseBreaks_spec_def join_cons_head)
    qed
  qed
qed

lemma replaceQuotes_concat: "replaceQuotes s = doubleQuotes_spec s"
  by (induction s) (simp_all add: doubleQuotes_spec_def)

lemma unquote_replaceQuotes: "unquote (replaceQuotes s @ [DQUOTE]) = Some s"
proof (induction s)
  case Nil
  show ?case by simp
next
  case (Cons c s)
  show ?case
  proof (cases "c = DQUOTE")
    case True
    with Cons show ?thesis by simp
  next
    case False
    obtain x xs where "replaceQuotes s @ [DQUOTE] = x # xs"
      by (cases "replaceQuotes s @ [DQUOTE]") auto
    with False Cons show ?thesis by simp
  qed
qed

text \<open>
  C6. For every value, the escaper of the code is the escaper of the specification:
  null and undefined give the two double quotes; any other value is converted to text,
  its NUL characters stripped, each line break collapsed to one space, the surrounding
  white space trimmed, every double quote doubled, and the result wrapped in double
  quotes.
\<close>

theorem esc_refines_spec: "esc v = esc_spec v"
  by (cases v)
    (simp_all add: esc_def esc_spec_def replaceNul_filter replaceLineBreaks_split
      replaceQuotes_concat)

theorem esc_refines_spec_witness:
  "esc Null = [DQUOTE, DQUOTE] \<and> esc Undefined = [DQUOTE, DQUOTE]
   \<and> esc (Str [SPACE, 97, NUL, DQUOTE, CR, LF, 98, LF]) = [DQUOTE, 97, DQUOTE, DQUOTE, SPACE, 98, DQUOTE]"
  using esc_refines_spec [of Null] esc_refines_spec [of Undefined]
    esc_refines_spec [of "Str [SPACE, 97, NUL, DQUOTE, CR, LF, 98, LF]"]
  by (simp add: esc_spec_def stripNul_spec_def collapseBreaks_spec_def doubleQuotes_spec_def
      trim_def isWhiteSpace_def NUL_def LF_def CR_def SPACE_def DQUOTE_def)

text \<open>
  C7 (as amended). For every string that contains a double quote, parsing the escaped
  field gives the string with its NUL characters stripped, its line breaks collapsed to
  spaces and its surrounding white space trimmed: the double quotes come back as they
  were, the rest of the escaper's normalisation stays.
\<close>

theorem esc_parse_roundtrip:
  "DQUOTE \<in> set s \<Longrightarrow>
     parseField (esc (Str s)) = Some (trim (replaceLineBreaks (replaceNul s)))"
  by (simp add: esc_def parseField_def unquote_replaceQuotes)

theorem esc_parse_roundtrip_witness:
  "DQUOTE \<in> set [97, DQUOTE, LF, 98]
   \<and> parseField (esc (Str [97, DQUOTE, LF, 98])) = Some [97, DQUOTE, SPACE, 98]"
  using esc_parse_roundtrip [of "[97, DQUOTE, LF, 98]"]
  by (simp add: trim_def isWhiteSpace_def NUL_def LF_def CR_def SPACE_def DQUOTE_def)

text \<open>
  The claim as the specification states it fails on a string with a leading space and no
  line break at all: the field parses to the trimmed string, not to the original one.
\<close>

theorem esc_parse_roundtrip_counterexample:
  "DQUOTE \<in> set [SPACE, DQUOTE]
   \<and> parseField (esc (Str [SPACE, DQUOTE])) \<noteq> Some (replaceLineBreaks [SPACE, DQUOTE])"
  by (simp add: esc_def parseField_def trim_def isWhiteSpace_def NUL_def LF_def CR_def
      SPACE_def DQUOTE_def)

section \<open>Properties of the exporter\<close>

lemma includesStr_iff: "includesStr s sub \<longleftrightarrow> (\<exists>pre suf. s = pre @ sub @ suf)"
proof (induction s)
  case Nil
  show ?case by auto
next
  case (Cons c cs)
  have pre: "take (length sub) (c # cs) = sub \<longleftrightarrow> (\<exists>suf. c # cs = sub @ suf)"
    by (metis append_eq_conv_conj)
  show ?case
  proof
    assume "includesStr (c # cs) sub"
    then consider "take (length sub) (c # cs) = sub" | "includesStr cs sub" by auto
    then show "\<exists>pre suf. c # cs = pre @ sub @ suf"
    proof cases
      case 1
      with pre obtain suf where "c # cs = [] @ sub @ suf" by auto
      then show ?thesis by blast
    next
      case 2
      with Cons obtain p q where "cs = p @ sub @ q" by auto
      then have "c # cs = (c # p) @ sub @ q" by simp
      then show ?thesis by blast
    qed
  next
    assume "\<exists>pre suf. c # cs = pre @ sub @ suf"
    then obtain p q where pq: "c # cs = p @ sub @ q" by auto
    show "includesStr (c # cs) sub"
    proof (cases p)
      case Nil
      with pq have "\<exists>suf. c # cs = sub @ suf" by auto
      with pre have "take (length sub) (c # cs) = sub" by blast
      then show ?thesis by simp
    next
      case (Cons a p')
      with pq have "cs = p' @ sub @ q" by simp
      with Cons.IH show ?thesis by auto
    qed
  qed
qed

lemma keys_setProp:
  "map fst (setProp r k v) = (if k \<in> set (map fst r) then map fst r else map fst r @ [k])"
  by (induction r) (force simp: image_iff)+

lemma hasOwn_setProp: "hasOwnProperty (setProp r k v) k' \<longleftrightarrow> k' = k \<or> hasOwnProperty r k'"
  unfolding hasOwnProperty_def keys_setProp by auto

lemma getProp_setProp: "getProp (setProp r k v) k' = (if k' = k then v else getProp r k')"
  by (induction r) (auto simp: getProp_def)

lemma hasOwn_ensureKeys:
  "hasOwnProperty (ensureKeys cols r) k \<longleftrightarrow> hasOwnProperty r k \<or> k \<in> set (map key cols)"
  unfolding ensureKeys_def
  by (induction cols arbitrary: r) (auto simp: hasOwn_setProp)

lemma getProp_ensureKeys:
  "getProp (ensureKeys cols r) k =
     (if hasOwnProperty r k then getProp r k
      else if k \<in> set (map key cols) then Str [] else Undefined)"
  unfolding ensureKeys_def
proof (induction cols arbitrary: r)
  case Nil
  show ?case
    using map_of_eq_None_iff [of r k]
    by (auto simp: getProp_def hasOwnProperty_def split: option.splits)
next
  case (Cons c cols)
  show ?case by (auto simp: Cons hasOwn_setProp getProp_setProp)
qed

lemma includesStr_occursAt:
  "includesStr s sub \<longleftrightarrow> list_ex (occursAt sub s) [0..<Suc (length s)]"
proof
  assume "includesStr s sub"
  then obtain pre suf where s: "s = pre @ sub @ suf"
    using includesStr_iff by blast
  then have "occursAt sub s (length pre)" "length pre < Suc (length s)"
    by (simp_all add: occursAt_def)
  then show "list_ex (occursAt sub s) [0..<Suc (length s)]"
    unfolding list_ex_iff by (metis atLeastLessThan_iff le0 set_upt)
next
  assume "list_ex (occursAt sub s) [0..<Suc (length s)]"
  then obtain i where i: "take (length sub) (drop i s) = sub"
    by (auto simp: list_ex_iff occursAt_def)
  have "s = take i s @ drop i s"
    by (simp only: append_take_drop_id)
  also have "drop i s = take (length sub) (drop i s) @ drop (length sub) (drop i s)"
    by (simp only: append_take_drop_id)
  finally have "s = take i s @ sub @ drop (length sub) (drop i s)"
    using i by (simp only:)
  then show "includesStr s sub"
    using includesStr_iff by blast
qed

lemma hasMarker_spec_code:
  "hasMarker_spec line =
     (let lc = toLowerCase (case line of None \<Rightarrow> [] | Some l \<Rightarrow> l)
      in includesStr lc (js ''website'') \<or> includesStr lc (js ''domain''))"
proof (cases line)
  case None
  show ?thesis unfolding None by (simp add: hasMarker_spec_def toLowerCase_def js_def)
next
  case (Some l)
  have "length (toLowerCase l) = length l" by (simp add: toLowerCase_def)
  then show ?thesis
    unfolding Some by (simp add: hasMarker_spec_def includesStr_occursAt Let_def)
qed

lemma chooseColumns_columnSet: "chooseColumns nd fs fp = columnSet_spec nd fs fp"
  by (simp add: chooseColumns_def columnSet_spec_def existsSync_def readHeaderLine_def
      chooseColumnsForExistingHeader_def hasMarker_spec_code Let_def split: option.splits)

lemma chooseColumns_cong: "files fs1 = files fs \<Longrightarrow> chooseColumns nd fs1 fp = chooseColumns nd fs fp"
  by (simp add: chooseColumns_def existsSync_def readHeaderLine_def)

lemma distinct_headers_BASE: "distinct (map header BASE_COLUMNS)"
  by (simp add: BASE_COLUMNS_def js_def)

lemma distinct_headers_EXT: "distinct (map header EXT_WEBSITE)"
  by (simp add: EXT_WEBSITE_def BASE_COLUMNS_def js_def)

lemma saveProfilesCsv_rows:
  assumes "rs \<noteq> []" and "canMkdir nd (dirname nd (destination nd opts))"
  shows "fst (saveProfilesCsv nd (Some rs) opts fs)
           = Some (ensureKeysForColumns rs (chooseColumns nd fs (destination nd opts)))"
proof -
  let ?fs1 = "fs\<lparr>journal := journal fs @ [MadeDir (dirname nd (destination nd opts))]\<rparr>"
  have m: "mkdir nd fs (dirname nd (destination nd opts)) = Inr ?fs1"
    using assms(2) by (simp add: mkdir_def)
  have c: "chooseColumns nd ?fs1 (destination nd opts) = chooseColumns nd fs (destination nd opts)"
    by (rule chooseColumns_cong) simp
  show ?thesis
    using assms(1) by (simp add: saveProfilesCsv_def m c Let_def split: sum.splits)
qed

lemma esc_starts: "\<exists>t. esc v = DQUOTE # t"
  by (simp add: esc_def)

lemma csvBody_starts:
  assumes "rs \<noteq> []" and "cols \<noteq> []"
  shows "\<exists>t. csvBody rs cols = DQUOTE # t"
proof -
  obtain r rest where rs: "rs = r # rest" using assms(1) by (cases rs) auto
  obtain c cs where cols: "cols = c # cs" using assms(2) by (cases cols) auto
  obtain t where t: "esc (orEmpty (getProp r (key c))) = DQUOTE # t"
    using esc_starts by blast
  show ?thesis
    by (simp add: csvBody_def rs cols t join_cons_head)
qed

lemma chooseColumns_cases:
  "chooseColumns nd fs fp = EXT_WEBSITE \<or> chooseColumns nd fs fp = BASE_COLUMNS"
  by (simp add: chooseColumns_def chooseColumnsForExistingHeader_def Let_def)

lemma chooseColumns_nonempty: "chooseColumns nd fs fp \<noteq> []"
  using chooseColumns_cases [of nd fs fp] by (auto simp: EXT_WEBSITE_def BASE_COLUMNS_def)

lemma ensureKeysForColumns_nonempty: "rs \<noteq> [] \<Longrightarrow> ensureKeysForColumns rs cols \<noteq> []"
  by (simp add: ensureKeysForColumns_def)

lemma saveProfilesCsv_journal:
  assumes "rs \<noteq> []" and "fp = destination nd opts" and "canMkdir nd (dirname nd fp)"
    and "canWrite nd fp"
  shows "journal (fst (snd (saveProfilesCsv nd (Some rs) opts fs)))
           = journal fs @
             [MadeDir (dirname nd fp),
              (let cols = chooseColumns nd fs fp;
                   body = csvBody (ensureKeysForColumns rs cols) cols;
                   prefix = (if includeBOM opts = Some False then [] else [BOM])
               in if existsSync fs fp \<and> append_opt opts \<noteq> Some False then Appended fp body
                  else if append_opt opts = Some True
                       then Appended fp (prefix @ csvHeader cols @ body)
                       else Wrote fp (prefix @ csvHeader cols @ body))]"
proof -
  let ?fs1 = "fs\<lparr>journal := journal fs @ [MadeDir (dirname nd fp)]\<rparr>"
  have m: "mkdir nd fs (dirname nd fp) = Inr ?fs1"
    using assms by (simp add: mkdir_def)
  have c: "chooseColumns nd ?fs1 fp = chooseColumns nd fs fp"
    by (rule chooseColumns_cong) simp
  have e: "existsSync ?fs1 fp = existsSync fs fp"
    by (simp add: existsSync_def)
  show ?thesis
    using assms(1,4) unfolding saveProfilesCsv_def assms(2) [symmetric]
    by (cases "append_opt opts"; cases "includeBOM opts")
       (auto simp: m c e Let_def appendFile_def writeFile_def)
qed

lemma ensureKeysForColumns_nth:
  "i < length rs \<Longrightarrow> ensureKeysForColumns rs cols ! i = ensureKeys cols (rs ! i)"
  by (simp add: ensureKeysForColumns_def)

text \<open>
  C5. The column set a call chooses is the one the specification names: the base set
  with Website when the destination does not exist; when it exists, the base set with
  Website exactly when its first line, lower-cased, contains \<open>website\<close> or \<open>domain\<close>,
  and the base set otherwise. No header label occurs twice in it, so there is never a
  second Website column. Two files with the same first line get the same set. A call
  with rows that gets to choose leaves the rows with the keys of that set.
\<close>

theorem saveProfilesCsv_column_choice:
  "chooseColumns nd fs fp = columnSet_spec nd fs fp
   \<and> distinct (map header (chooseColumns nd fs fp))
   \<and> (files fs fp = Some c \<longrightarrow> files fs' fp = Some c'
        \<longrightarrow> readlineFirst nd c = readlineFirst nd c'
        \<longrightarrow> chooseColumns nd fs' fp = chooseColumns nd fs fp)
   \<and> (rs \<noteq> [] \<longrightarrow> canMkdir nd (dirname nd (destination nd opts))
        \<longrightarrow> fst (saveProfilesCsv nd (Some rs) opts fs)
              = Some (ensureKeysForColumns rs (columnSet_spec nd fs (destination nd opts))))"
proof -
  have a: "chooseColumns nd fs fp = columnSet_spec nd fs fp"
    by (rule chooseColumns_columnSet)
  have b: "distinct (map header (chooseColumns nd fs fp))"
    using chooseColumns_cases [of nd fs fp] distinct_headers_BASE distinct_headers_EXT by auto
  have c: "files fs fp = Some c \<longrightarrow> files fs' fp = Some c'
        \<longrightarrow> readlineFirst nd c = readlineFirst nd c'
        \<longrightarrow> chooseColumns nd fs' fp = chooseColumns nd fs fp"
    by (simp add: chooseColumns_columnSet columnSet_spec_def)
  have d: "rs \<noteq> [] \<longrightarrow> canMkdir nd (dirname nd (destination nd opts))
        \<longrightarrow> fst (saveProfilesCsv nd (Some rs) opts fs)
              = Some (ensureKeysForColumns rs (columnSet_spec nd fs (destination nd opts)))"
    by (simp add: saveProfilesCsv_rows chooseColumns_columnSet)
  from a b c d show ?thesis by blast
qed

text \<open>
  A destination whose first line has no marker gets the base set, although its second
  line contains \<open>website\<close>; a destination that does not exist gets the base set with
  Website.
\<close>

theorem saveProfilesCsv_column_choice_witness:
  "chooseColumns plainNode legacyFs (js ''output.csv'') = BASE_COLUMNS
   \<and> chooseColumns plainNode emptyFs (js ''output.csv'') = EXT_WEBSITE
   \<and> fst (saveProfilesCsv plainNode (Some [[]]) noOpts legacyFs)
       = Some (ensureKeysForColumns [[]] BASE_COLUMNS)"
  using saveProfilesCsv_column_choice [of plainNode legacyFs "js ''output.csv''" "[]" legacyFs "[]" "[[]]" noOpts]
    saveProfilesCsv_column_choice [of plainNode emptyFs "js ''output.csv''" "[]" emptyFs "[]" "[[]]" noOpts]
  by (simp add: columnSet_spec_def hasMarker_spec_code plainNode_def legacyFs_def emptyFs_def
      noOpts_def destination_def firstLine_def toLowerCase_def lowerUnit_def js_def CRLF_def
      CR_def LF_def Let_def)

text \<open>
  C8 (as amended). With the byte-order mark enabled, a call with rows that makes its
  directory and writes its file journals one write after the directory: the body alone,
  appended, when the destination exists and \<^verbatim>\<open>append\<close> is not false; the mark, the
  header and the body otherwise (appended when \<^verbatim>\<open>append\<close> is true, written over the
  file when it is false or undefined). So the data begins with the mark exactly when the
  destination did not exist or \<^verbatim>\<open>append\<close> is false, and never when the call appends
  to an existing file.
\<close>

theorem saveProfilesCsv_bom:
  assumes "rs \<noteq> []" and "fp = destination nd opts" and "canMkdir nd (dirname nd fp)"
    and "canWrite nd fp" and "includeBOM opts \<noteq> Some False"
  shows "journal (fst (snd (saveProfilesCsv nd (Some rs) opts fs)))
           = journal fs @
             [MadeDir (dirname nd fp),
              (let cols = chooseColumns nd fs fp;
                   body = csvBody (ensureKeysForColumns rs cols) cols
               in if existsSync fs fp \<and> append_opt opts \<noteq> Some False then Appended fp body
                  else if append_opt opts = Some True
                       then Appended fp ([BOM] @ csvHeader cols @ body)
                       else Wrote fp ([BOM] @ csvHeader cols @ body))]
         \<and> (startsWithBOM (payload (last (journal (fst (snd (saveProfilesCsv nd (Some rs) opts fs))))))
              \<longleftrightarrow> (\<not> existsSync fs fp \<or> append_opt opts = Some False))"
proof -
  let ?cols = "chooseColumns nd fs fp"
  let ?body = "csvBody (ensureKeysForColumns rs ?cols) ?cols"
  have j: "journal (fst (snd (saveProfilesCsv nd (Some rs) opts fs)))
           = journal fs @
             [MadeDir (dirname nd fp),
              (if existsSync fs fp \<and> append_opt opts \<noteq> Some False then Appended fp ?body
               else if append_opt opts = Some True
                    then Appended fp ([BOM] @ csvHeader ?cols @ ?body)
                    else Wrote fp ([BOM] @ csvHeader ?cols @ ?body))]"
    using saveProfilesCsv_journal [OF assms(1-4), of fs] assms(5) by (simp add: Let_def)
  obtain t where t: "?body = DQUOTE # t"
    using csvBody_starts [OF ensureKeysForColumns_nonempty [OF assms(1)] chooseColumns_nonempty]
    by blast
  have nb: "\<not> startsWithBOM ?body"
    by (simp add: t startsWithBOM_def DQUOTE_def BOM_def)
  have yb: "startsWithBOM ([BOM] @ csvHeader ?cols @ ?body)"
    by (simp add: startsWithBOM_def)
  have "startsWithBOM (payload (last (journal (fst (snd (saveProfilesCsv nd (Some rs) opts fs))))))
          \<longleftrightarrow> (\<not> existsSync fs fp \<or> append_opt opts = Some False)"
    unfolding j using nb yb by (auto simp: payload_def)
  with j show ?thesis by (simp add: Let_def)
qed

theorem saveProfilesCsv_bom_witness:
  "\<not> startsWithBOM (payload (last (journal (fst (snd (saveProfilesCsv plainNode (Some [[]]) noOpts legacyFs))))))
   \<and> startsWithBOM (payload (last (journal (fst (snd (saveProfilesCsv plainNode (Some [[]]) noOpts emptyFs))))))
   \<and> startsWithBOM (payload (last (journal (fst (snd (saveProfilesCsv plainNode (Some [[]]) overwriteOpts legacyFs))))))"
  using saveProfilesCsv_bom [of "[[]]" "js ''output.csv''" plainNode noOpts legacyFs, THEN conjunct2]
    saveProfilesCsv_bom [of "[[]]" "js ''output.csv''" plainNode noOpts emptyFs, THEN conjunct2]
    saveProfilesCsv_bom [of "[[]]" "js ''output.csv''" plainNode overwriteOpts legacyFs, THEN conjunct2]
  by (simp add: plainNode_def legacyFs_def emptyFs_def noOpts_def overwriteOpts_def
      destination_def existsSync_def)

text \<open>
  The claim as the specification states it fails when the destination exists and
  \<^verbatim>\<open>append\<close> is false: the existing file is written over, and its new content begins
  with the byte-order mark.
\<close>

theorem saveProfilesCsv_bom_counterexample:
  "existsSync legacyFs (destination plainNode overwriteOpts)
   \<and> map_option startsWithBOM
        (files (fst (snd (saveProfilesCsv plainNode (Some [[]]) overwriteOpts legacyFs)))
           (destination plainNode overwriteOpts)) = Some True"
  by (simp add: saveProfilesCsv_def plainNode_def legacyFs_def overwriteOpts_def destination_def
      existsSync_def mkdir_def writeFile_def startsWithBOM_def Let_def)

text \<open>
  C10 (as amended). After a call with rows in which the directory of the destination
  could be made, whether or not the file is then written, every row has an own property
  for every key of the chosen column set: the value it had, or the empty string when the
  property was missing. A call with rows null, undefined or empty returns the resolved
  destination and leaves the rows and the file system as they were.
\<close>

theorem saveProfilesCsv_rows_mutated:
  "(rs \<noteq> [] \<longrightarrow> canMkdir nd (dirname nd (destination nd opts)) \<longrightarrow>
      (\<exists>rs'. fst (saveProfilesCsv nd (Some rs) opts fs) = Some rs' \<and> length rs' = length rs
         \<and> (\<forall>i < length rs. \<forall>c \<in> set (chooseColumns nd fs (destination nd opts)).
               hasOwnProperty (rs' ! i) (key c)
               \<and> getProp (rs' ! i) (key c)
                   = (if hasOwnProperty (rs ! i) (key c) then getProp (rs ! i) (key c) else Str []))))
   \<and> (rows = None \<or> rows = Some [] \<longrightarrow>
        saveProfilesCsv nd rows opts fs = (rows, fs, Inr (resolve nd (destination nd opts))))"
proof (intro conjI impI)
  assume ne: "rs \<noteq> []" and mk: "canMkdir nd (dirname nd (destination nd opts))"
  let ?cols = "chooseColumns nd fs (destination nd opts)"
  let ?rs' = "ensureKeysForColumns rs ?cols"
  have r: "fst (saveProfilesCsv nd (Some rs) opts fs) = Some ?rs'"
    using saveProfilesCsv_rows [OF ne mk] .
  have l: "length ?rs' = length rs"
    by (simp add: ensureKeysForColumns_def)
  have k: "\<forall>i < length rs. \<forall>c \<in> set ?cols.
             hasOwnProperty (?rs' ! i) (key c)
             \<and> getProp (?rs' ! i) (key c)
                 = (if hasOwnProperty (rs ! i) (key c) then getProp (rs ! i) (key c) else Str [])"
    by (simp add: ensureKeysForColumns_nth hasOwn_ensureKeys getProp_ensureKeys)
  from r l k
  show "\<exists>rs'. fst (saveProfilesCsv nd (Some rs) opts fs) = Some rs' \<and> length rs' = length rs
         \<and> (\<forall>i < length rs. \<forall>c \<in> set (chooseColumns nd fs (destination nd opts)).
               hasOwnProperty (rs' ! i) (key c)
               \<and> getProp (rs' ! i) (key c)
                   = (if hasOwnProperty (rs ! i) (key c) then getProp (rs ! i) (key c) else Str []))"
    by blast
next
  assume "rows = None \<or> rows = Some []"
  then show "saveProfilesCsv nd rows opts fs = (rows, fs, Inr (resolve nd (destination nd opts)))"
    by (auto simp: saveProfilesCsv_def)
qed

theorem saveProfilesCsv_rows_mutated_witness:
  "fst (saveProfilesCsv plainNode (Some [[(js ''name'', Str (js ''Ann''))]]) noOpts emptyFs)
     = Some [[(js ''name'', Str (js ''Ann'')), (js ''first_name'', Str []),
              (js ''last_name'', Str []), (js ''title'', Str []), (js ''company'', Str []),
              (js ''person_location'', Str []), (js ''person_title'', Str []),
              (js ''domain'', Str [])]]
   \<and> saveProfilesCsv plainNode (Some []) noOpts emptyFs = (Some [], emptyFs, Inr (js ''output.csv''))
   \<and> saveProfilesCsv plainNode None noOpts emptyFs = (None, emptyFs, Inr (js ''output.csv''))"
  using saveProfilesCsv_rows_mutated [of "[[(js ''name'', Str (js ''Ann''))]]" plainNode noOpts emptyFs "Some []"]
    saveProfilesCsv_rows_mutated [of "[[(js ''name'', Str (js ''Ann''))]]" plainNode noOpts emptyFs None]
    saveProfilesCsv_rows [of "[[(js ''name'', Str (js ''Ann''))]]" plainNode noOpts emptyFs]
  by (simp add: plainNode_def noOpts_def emptyFs_def destination_def chooseColumns_def
      existsSync_def ensureKeysForColumns_def ensureKeys_def EXT_WEBSITE_def BASE_COLUMNS_def
      hasOwnProperty_def js_def)

text \<open>
  The claim as stated fails on a call whose directory cannot be made: the promise is
  rejected before the rows are touched, and the row still has no \<open>name\<close> property.
\<close>

theorem saveProfilesCsv_rows_mutated_counterexample:
  "fst (saveProfilesCsv lockedNode (Some [[]]) noOpts emptyFs) = Some [[]]
   \<and> js ''name'' \<in> set (map key (chooseColumns lockedNode emptyFs (destination lockedNode noOpts)))
   \<and> \<not> hasOwnProperty [] (js ''name'')"
  by (simp add: saveProfilesCsv_def lockedNode_def plainNode_def noOpts_def emptyFs_def
      destination_def mkdir_def chooseColumns_def existsSync_def EXT_WEBSITE_def
      BASE_COLUMNS_def hasOwnProperty_def)

section \<open>Properties of the migration\<close>

lemma lower_simps:
  "toLowerCase [] = []"
  "toLowerCase (c # cs) = lowerUnit c # toLowerCase cs"
  by (simp_all add: toLowerCase_def)

lemma mapRow_legacy:
  "fst (mapRow legacyHeaders used row) = migratedRow_spec row"
  by (simp add: mapRow_def canonStep_def restStep_def CANONICAL_HEADERS_def legacyHeaders_def
      getValue_def ciFind_def lower_simps lowerUnit_def js_def orEmpty_def migratedRow_spec_def
      Let_def split: option.splits)

lemma mapRows_legacy: "mapRows legacyHeaders used rows = map migratedRow_spec rows"
  by (induction rows arbitrary: used) (simp_all add: mapRow_legacy Let_def)

lemma finalHeaders_legacy:
  "finalHeaders legacyHeaders
     = [js ''Full Name'', js ''First Name'', js ''Last Name'', js ''Title'', js ''Company'',
        js ''Person Location'', js ''LinkedIn URL'', js ''Website'']"
  by (simp add: finalHeaders_def extraHeaders_def canonicalOrder_def CANONICAL_HEADERS_def
      legacyHeaders_def lower_simps lowerUnit_def js_def)

lemma not_canonical_legacy: "\<not> alreadyCanonical legacyHeaders"
  by (simp add: alreadyCanonical_def hasEmail_def legacyHeaders_def lower_simps lowerUnit_def js_def)






lemma bak_differs: "full @ js ''.bak'' \<noteq> full"
  by (simp add: js_def)

text \<open>
  C2. A migration with the backup enabled that has to change the file (it is read and
  parsed, has a record, and its header is not already canonical) does exactly this: when
  the backup \<open>full @ .bak\<close> cannot be written, it fails with that error and the file
  system is as it was; otherwise the backup holds the raw bytes, it is the first entry
  journalled, and the file itself is written after it (or the call fails with the backup
  in place, when the file cannot be written).
\<close>

theorem upgradeCsvHeaders_backup_first:
  assumes "full = resolve nd fp" and "readFile fs full = Inr raw"
    and "csvParse nd raw = Some rows" and "rows \<noteq> []"
    and "\<not> alreadyCanonical (objectKeys (hd rows))" and "backup_opt \<noteq> Some False"
  shows "upgradeCsvHeaders nd fp backup_opt fs =
     (let bak = full @ js ''.bak'';
          csv = csvStringify nd (newRows (objectKeys (hd rows)) rows)
                  (finalHeaders (objectKeys (hd rows)))
      in if \<not> canWrite nd bak then (fs, Inl (WriteFailed bak))
         else if \<not> canWrite nd full
         then (fs\<lparr>files := (files fs)(bak \<mapsto> raw), journal := journal fs @ [Wrote bak raw]\<rparr>,
               Inl (WriteFailed full))
         else (fs\<lparr>files := (files fs)(bak \<mapsto> raw, full \<mapsto> csv),
                   journal := journal fs @ [Wrote bak raw, Wrote full csv]\<rparr>,
               Inr \<lparr>changed = True, columns = Some (finalHeaders (objectKeys (hd rows))),
                      reason = None\<rparr>))"
proof -
  have b: "(case backup_opt of None \<Rightarrow> True | Some b \<Rightarrow> b) = True"
    using assms(6) by (cases backup_opt) auto
  show ?thesis
    using assms(2-5) unfolding upgradeCsvHeaders_def assms(1) [symmetric] b
    by (simp add: Let_def writeMigrated_def writeFile_def)
qed

theorem upgradeCsvHeaders_backup_first_witness:
  "upgradeCsvHeaders noBackupNode (js ''people.csv'') None migrationFs
     = (migrationFs, Inl (WriteFailed (js ''people.csv.bak'')))
   \<and> map (\<lambda>e. case e of Wrote p d \<Rightarrow> p | Appended p d \<Rightarrow> p | MadeDir p \<Rightarrow> p)
        (journal (fst (upgradeCsvHeaders migrationNode (js ''people.csv'') None migrationFs)))
       = [js ''people.csv.bak'', js ''people.csv'']
   \<and> files (fst (upgradeCsvHeaders migrationNode (js ''people.csv'') None migrationFs))
        (js ''people.csv.bak'') = Some legacyCsv"
proof -
  have r: "readFile migrationFs (js ''people.csv'') = Inr legacyCsv"
    by (simp add: readFile_def migrationFs_def)
  have p: "csvParse migrationNode legacyCsv = Some legacyRows"
    "csvParse noBackupNode legacyCsv = Some legacyRows"
    by (simp_all add: noBackupNode_def migrationNode_def plainNode_def)
  have f: "js ''people.csv'' = resolve migrationNode (js ''people.csv'')"
    "js ''people.csv'' = resolve noBackupNode (js ''people.csv'')"
    by (simp_all add: noBackupNode_def migrationNode_def plainNode_def)
  have ne: "legacyRows \<noteq> []"
    by (simp add: legacyRows_def)
  have nc: "\<not> alreadyCanonical (objectKeys (hd legacyRows))"
    using not_canonical_legacy by (simp add: legacyRows_def objectKeys_def legacyHeaders_def)
  have o: "(None :: bool option) \<noteq> Some False"
    by simp
  have w: "\<not> canWrite noBackupNode (js ''people.csv'' @ js ''.bak'')"
    "canWrite migrationNode (js ''people.csv'' @ js ''.bak'')"
    "canWrite migrationNode (js ''people.csv'')"
    by (simp_all add: noBackupNode_def migrationNode_def plainNode_def js_def)
  have k: "js ''people.csv'' @ js ''.bak'' = js ''people.csv.bak''"
    by (simp add: js_def)
  have nb: "js ''.bak'' \<noteq> []"
    by (simp add: js_def)
  show ?thesis
    using upgradeCsvHeaders_backup_first [OF f(2) r p(2) ne nc o]
      upgradeCsvHeaders_backup_first [OF f(1) r p(1) ne nc o] w nb
    by (simp add: Let_def k [symmetric] migrationFs_def)
qed

text \<open>
  C4. For a file whose header is Name, Email, Company: the output columns are the eight
  canonical labels; every output row is the row the specification expects, with the
  \<open>Name\<close> value under Full Name; the call writes the \<^verbatim>\<open>stringify\<close> of exactly these rows
  and columns; an output row has no Email property and does not depend on the Email
  value of its input row.
\<close>

theorem upgradeCsvHeaders_legacy_header:
  assumes "readFile fs (resolve nd fp) = Inr raw" and "csvParse nd raw = Some rows"
    and "rows \<noteq> []"
    and "objectKeys (hd rows) = [js ''Name'', js ''Email'', js ''Company'']"
  shows "finalHeaders (objectKeys (hd rows))
           = [js ''Full Name'', js ''First Name'', js ''Last Name'', js ''Title'', js ''Company'',
              js ''Person Location'', js ''LinkedIn URL'', js ''Website'']
         \<and> newRows (objectKeys (hd rows)) rows = map migratedRow_spec rows
         \<and> upgradeCsvHeaders nd fp backup_opt fs
             = writeMigrated nd fs (resolve nd fp) (backup_opt \<noteq> Some False) raw
                 (csvStringify nd (map migratedRow_spec rows)
                    [js ''Full Name'', js ''First Name'', js ''Last Name'', js ''Title'',
                     js ''Company'', js ''Person Location'', js ''LinkedIn URL'', js ''Website''])
                 [js ''Full Name'', js ''First Name'', js ''Last Name'', js ''Title'',
                  js ''Company'', js ''Person Location'', js ''LinkedIn URL'', js ''Website'']
         \<and> migratedRow_spec (setProp row (js ''Email'') v) = migratedRow_spec row
         \<and> js ''Email'' \<notin> set (objectKeys (migratedRow_spec row))"
proof -
  have h: "objectKeys (hd rows) = legacyHeaders"
    using assms(4) by (simp add: legacyHeaders_def)
  have b: "(case backup_opt of None \<Rightarrow> True | Some b \<Rightarrow> b) = (backup_opt \<noteq> Some False)"
    by (cases backup_opt) auto
  have n: "newRows legacyHeaders rows = map migratedRow_spec rows"
    by (simp add: newRows_def mapRows_legacy)
  have u: "upgradeCsvHeaders nd fp backup_opt fs
             = writeMigrated nd fs (resolve nd fp) (backup_opt \<noteq> Some False) raw
                 (csvStringify nd (map migratedRow_spec rows) (finalHeaders legacyHeaders))
                 (finalHeaders legacyHeaders)"
    using assms(1-3) not_canonical_legacy
    by (simp add: upgradeCsvHeaders_def h b n Let_def)
  have e: "migratedRow_spec (setProp row (js ''Email'') v) = migratedRow_spec row"
    by (simp add: migratedRow_spec_def getProp_setProp js_def)
  have k: "js ''Email'' \<notin> set (objectKeys (migratedRow_spec row))"
    by (simp add: migratedRow_spec_def objectKeys_def js_def)
  from n u e k show ?thesis
    unfolding h finalHeaders_legacy by simp
qed

theorem upgradeCsvHeaders_legacy_header_witness:
  "objectKeys (hd legacyRows) = [js ''Name'', js ''Email'', js ''Company'']
   \<and> snd (upgradeCsvHeaders migrationNode (js ''people.csv'') None migrationFs)
       = Inr \<lparr>changed = True,
              columns = Some [js ''Full Name'', js ''First Name'', js ''Last Name'', js ''Title'',
                              js ''Company'', js ''Person Location'', js ''LinkedIn URL'',
                              js ''Website''],
              reason = None\<rparr>
   \<and> files (fst (upgradeCsvHeaders migrationNode (js ''people.csv'') None migrationFs))
        (js ''people.csv'')
       = Some ([BOM]
               @ js ''Full Name,First Name,Last Name,Title,Company,Person Location,LinkedIn URL,Website''
               @ CRLF @ js ''Ann Lee,,,,Acme,,,'' @ CRLF)"
proof -
  have r: "readFile migrationFs (resolve migrationNode (js ''people.csv'')) = Inr legacyCsv"
    by (simp add: readFile_def migrationFs_def migrationNode_def plainNode_def)
  have p: "csvParse migrationNode legacyCsv = Some legacyRows"
    by (simp add: migrationNode_def plainNode_def)
  have ne: "legacyRows \<noteq> []"
    by (simp add: legacyRows_def)
  have h: "objectKeys (hd legacyRows) = [js ''Name'', js ''Email'', js ''Company'']"
    by (simp add: legacyRows_def objectKeys_def)
  have m: "map migratedRow_spec legacyRows
             = [[(js ''Full Name'', Str (js ''Ann Lee'')), (js ''First Name'', Str []),
                 (js ''Last Name'', Str []), (js ''Title'', Str []),
                 (js ''Company'', Str (js ''Acme'')), (js ''Person Location'', Str []),
                 (js ''LinkedIn URL'', Str []), (js ''Website'', Str [])]]"
    by (simp add: legacyRows_def migratedRow_spec_def getProp_def orEmpty_def js_def)
  show ?thesis
    using upgradeCsvHeaders_legacy_header [OF r p ne h, of None] h
    unfolding m
    by (simp add: writeMigrated_def writeFile_def migrationNode_def plainNode_def
        plainStringify_def getProp_def js_def CRLF_def COMMA_def CR_def LF_def)
qed

section \<open>Properties of the list-readiness wait\<close>

text \<open>
  C1 (as amended). When the selector becomes visible and attached and the wait for the
  minimum count is rejected, \<^verbatim>\<open>waitForLeadList\<close> is rejected with that error after
  these three waits: the failure is passed on to the caller, and neither the load-state
  wait nor the settle delay is started.
\<close>

theorem waitForLeadList_count_timeout:
  assumes "timeout = (case timeout_opt of None \<Rightarrow> 10000 | Some t \<Rightarrow> t)"
    and "pg (WaitForSelector ROW_TITLE Visible timeout)"
    and "pg (WaitForSelector ROW_TITLE Attached timeout)"
    and "\<not> pg (WaitForFunction ROW_TITLE (minRows cfg) timeout)"
  shows "waitForLeadList cfg pg timeout_opt
           = ([WaitForSelector ROW_TITLE Visible timeout,
               WaitForSelector ROW_TITLE Attached timeout,
               WaitForFunction ROW_TITLE (minRows cfg) timeout],
              Inl (Rejected (WaitForFunction ROW_TITLE (minRows cfg) timeout)))"
  using assms(2-4) unfolding assms(1) by (simp add: waitForLeadList_def Let_def)

theorem waitForLeadList_count_timeout_witness:
  "stalledPage (WaitForSelector ROW_TITLE Visible 10000)
   \<and> stalledPage (WaitForSelector ROW_TITLE Attached 10000)
   \<and> \<not> stalledPage (WaitForFunction ROW_TITLE (minRows normalConfig) 10000)
   \<and> waitForLeadList normalConfig stalledPage None
       = ([WaitForSelector ROW_TITLE Visible 10000, WaitForSelector ROW_TITLE Attached 10000,
           WaitForFunction ROW_TITLE 10 10000],
          Inl (Rejected (WaitForFunction ROW_TITLE 10 10000)))"
  using waitForLeadList_count_timeout [of 10000 None stalledPage normalConfig]
  by (simp add: stalledPage_def minRows_def normalConfig_def)

text \<open>
  The claim as the specification states it fails on a page whose rows never reach the
  count: the call does not resolve, and the load-state wait is never started.
\<close>

theorem waitForLeadList_count_timeout_counterexample:
  "snd (waitForLeadList normalConfig stalledPage None) \<noteq> Inr ()
   \<and> WaitForLoadState (js ''domcontentloaded'') 500
       \<notin> set (fst (waitForLeadList normalConfig stalledPage None))"
  by (simp add: waitForLeadList_def stalledPage_def minRows_def normalConfig_def Let_def)

section \<open>Properties of the random delay\<close>

lemma roundHalfEven_int: "roundHalfEven (of_int n) = n"
  by (simp add: roundHalfEven_def)

lemma roundHalfEven_range: "\<lfloor>q\<rfloor> \<le> roundHalfEven q \<and> roundHalfEven q \<le> \<lfloor>q\<rfloor> + 1"
  by (simp add: roundHalfEven_def Let_def)

lemma roundHalfEven_mono:
  assumes "a \<le> b"
  shows "roundHalfEven a \<le> roundHalfEven b"
proof (cases "\<lfloor>a\<rfloor> = \<lfloor>b\<rfloor>")
  case True
  with assms show ?thesis
    by (auto simp: roundHalfEven_def Let_def)
next
  case False
  with assms have "\<lfloor>a\<rfloor> + 1 \<le> \<lfloor>b\<rfloor>"
    using floor_mono [OF assms] by linarith
  with roundHalfEven_range [of a] roundHalfEven_range [of b] show ?thesis
    by linarith
qed

lemma binade_bounds:
  assumes "x \<noteq> 0"
  shows "2 powi binade x \<le> \<bar>x\<bar> \<and> \<bar>x\<bar> < 2 powi (binade x + 1)"
proof (cases "1 \<le> \<bar>x\<bar>")
  case True
  define n where "n = nat \<lfloor>\<bar>x\<bar>\<rfloor>"
  have n: "0 < n" "real n \<le> \<bar>x\<bar>" "\<bar>x\<bar> < real n + 1"
    using True unfolding n_def by (auto simp: le_nat_floor)
  from floorlog_bounds [of n 2] n(1)
  have fb: "2 ^ (floorlog 2 n - 1) \<le> n" "n < 2 ^ floorlog 2 n" by auto
  have pos: "0 < floorlog 2 n" using n(1) by (simp add: floorlog_def)
  have b: "binade x = int (floorlog 2 n) - 1"
    using True by (simp add: binade_def n_def)
  have e1: "(2::real) powi (int (floorlog 2 n) - 1) = 2 ^ (floorlog 2 n - 1)"
    using pos by (simp add: power_int_def nat_diff_distrib')
  have e2: "(2::real) powi (int (floorlog 2 n) - 1 + 1) = 2 ^ floorlog 2 n"
    by (simp add: power_int_def)
  have "(2::real) ^ (floorlog 2 n - 1) \<le> real n"
    using fb(1) by (metis of_nat_le_iff of_nat_numeral of_nat_power)
  moreover have "real n + 1 \<le> 2 ^ floorlog 2 n"
    using fb(2) by (metis Suc_leI of_nat_Suc of_nat_le_iff of_nat_numeral of_nat_power add.commute)
  ultimately show ?thesis
    unfolding b e1 e2 using n by linarith
next
  case False
  define y where "y = 1 / \<bar>x\<bar>"
  have y: "1 < y" using False assms by (simp add: y_def)
  define m where "m = nat (\<lceil>y\<rceil> - 1)"
  have m: "0 < m" "real m < y" "y \<le> real m + 1"
    using y unfolding m_def by (auto simp: less_ceiling_iff) linarith+
  from floorlog_bounds [of m 2] m(1)
  have fb: "2 ^ (floorlog 2 m - 1) \<le> m" "m < 2 ^ floorlog 2 m" by auto
  have pos: "0 < floorlog 2 m" using m(1) by (simp add: floorlog_def)
  have b: "binade x = - int (floorlog 2 m)"
    using False by (simp add: binade_def m_def y_def)
  have r1: "(2::real) ^ (floorlog 2 m - 1) \<le> real m"
    using fb(1) by (metis of_nat_le_iff of_nat_numeral of_nat_power)
  have r2: "real m + 1 \<le> 2 ^ floorlog 2 m"
    using fb(2) by (metis Suc_leI of_nat_Suc of_nat_le_iff of_nat_numeral of_nat_power add.commute)
  have ylo: "(2::real) ^ (floorlog 2 m - 1) < y" using r1 m(2) by linarith
  have yhi: "y \<le> 2 ^ floorlog 2 m" using r2 m(3) by linarith
  have xpos: "0 < \<bar>x\<bar>" using assms by simp
  have e1: "(2::real) powi (- int (floorlog 2 m)) = 1 / 2 ^ floorlog 2 m"
    by (simp add: power_int_def field_simps)
  have e2: "(2::real) powi (- int (floorlog 2 m) + 1) = 1 / 2 ^ (floorlog 2 m - 1)"
    using pos by (cases "floorlog 2 m") (simp_all add: power_int_def field_simps nat_diff_distrib')
  have "1 / 2 ^ floorlog 2 m \<le> \<bar>x\<bar>"
    using yhi xpos unfolding y_def by (simp add: field_simps)
  moreover have "\<bar>x\<bar> < 1 / 2 ^ (floorlog 2 m - 1)"
    using ylo xpos unfolding y_def by (simp add: field_simps)
  ultimately show ?thesis
    unfolding b e1 e2 by simp
qed

lemma binade_unique:
  assumes "x \<noteq> 0" and "2 powi e \<le> \<bar>x\<bar>" and "\<bar>x\<bar> < 2 powi (e + 1)"
  shows "binade x = e"
proof (rule ccontr)
  assume ne: "binade x \<noteq> e"
  note b = binade_bounds [OF assms(1)]
  show False
  proof (cases "binade x < e")
    case True
    then have "(2::real) powi (binade x + 1) \<le> 2 powi e"
      by (intro power_int_increasing) auto
    with b assms(2) show False by linarith
  next
    case False
    with ne have "(2::real) powi (e + 1) \<le> 2 powi binade x"
      by (intro power_int_increasing) auto
    with b assms(3) show False by linarith
  qed
qed

lemma binade_mono:
  assumes "0 < x" and "x \<le> y"
  shows "binade x \<le> binade y"
proof (rule ccontr)
  assume "\<not> binade x \<le> binade y"
  then have "(2::real) powi (binade y + 1) \<le> 2 powi binade x"
    by (intro power_int_increasing) auto
  moreover have "2 powi binade x \<le> x" "y < 2 powi (binade y + 1)"
    using binade_bounds [of x] binade_bounds [of y] assms by auto
  ultimately show False using assms by linarith
qed

lemma ulpExponent_mono: "0 < x \<Longrightarrow> x \<le> y \<Longrightarrow> ulpExponent x \<le> ulpExponent y"
  using binade_mono [of x y] by (simp add: ulpExponent_def)

lemma roundDouble_nonneg: "0 \<le> x \<Longrightarrow> 0 \<le> roundDouble x"
proof -
  assume "0 \<le> x"
  then have "0 \<le> x / 2 powi ulpExponent x" by simp
  then have "roundHalfEven 0 \<le> roundHalfEven (x / 2 powi ulpExponent x)"
    by (rule roundHalfEven_mono)
  then have "0 \<le> roundHalfEven (x / 2 powi ulpExponent x)"
    using roundHalfEven_int [of 0] by simp
  then show ?thesis by (simp add: roundDouble_def)
qed

lemma roundDouble_mono:
  assumes "0 \<le> x" and "x \<le> y"
  shows "roundDouble x \<le> roundDouble y"
proof (cases "x = 0")
  case True
  with assms roundDouble_nonneg [of y] show ?thesis by (simp add: roundDouble_def)
next
  case False
  with assms have x: "0 < x" and y: "0 < y" by auto
  let ?k = "ulpExponent x" and ?l = "ulpExponent y"
  have kl: "?k \<le> ?l" using ulpExponent_mono [OF x assms(2)] .
  show ?thesis
  proof (cases "?k = ?l")
    case True
    have "x / 2 powi ?k \<le> y / 2 powi ?k"
      using assms(2) by (simp add: divide_right_mono)
    then have "roundHalfEven (x / 2 powi ?k) \<le> roundHalfEven (y / 2 powi ?k)"
      by (rule roundHalfEven_mono)
    then have "of_int (roundHalfEven (x / 2 powi ?k)) * (2::real) powi ?k
                 \<le> of_int (roundHalfEven (y / 2 powi ?k)) * 2 powi ?k"
      by (simp add: mult_right_mono)
    with x y True show ?thesis by (simp add: roundDouble_def)
  next
    case False
    with kl have lt: "?k < ?l" by simp
    define b where "b = binade y"
    have bgt: "binade x < b" "- 1022 < b"
      using lt unfolding ulpExponent_def b_def by auto
    have l: "?l = b - 52" using bgt(2) by (simp add: ulpExponent_def b_def)
    have kb: "?k < b - 52" using lt l by simp
    have xb: "x < 2 powi b"
    proof -
      have "x < 2 powi (binade x + 1)" using binade_bounds [of x] x by auto
      also have "\<dots> \<le> 2 powi b" using bgt(1) by (intro power_int_increasing) auto
      finally show ?thesis .
    qed
    have yb: "2 powi b \<le> y" using binade_bounds [of y] y by (auto simp: b_def)
    have px: "(2::real) powi b = of_int (2 ^ nat (b - ?k)) * 2 powi ?k"
    proof -
      have "(2::real) powi b = 2 powi (b - ?k) * 2 powi ?k"
        by (simp add: power_int_add [symmetric])
      also have "(2::real) powi (b - ?k) = 2 ^ nat (b - ?k)"
        using kb by (simp add: power_int_def)
      finally show ?thesis by simp
    qed
    have py: "(2::real) powi b = of_int (2 ^ nat (b - ?l)) * 2 powi ?l"
    proof -
      have "(2::real) powi b = 2 powi (b - ?l) * 2 powi ?l"
        by (simp add: power_int_add [symmetric])
      also have "(2::real) powi (b - ?l) = 2 ^ nat (b - ?l)"
        using l by (simp add: power_int_def)
      finally show ?thesis by simp
    qed
    have "x / 2 powi ?k \<le> of_int (2 ^ nat (b - ?k))"
      using xb px by (simp add: field_simps)
    then have "roundHalfEven (x / 2 powi ?k) \<le> roundHalfEven (of_int (2 ^ nat (b - ?k)))"
      by (rule roundHalfEven_mono)
    then have "of_int (roundHalfEven (x / 2 powi ?k)) * (2::real) powi ?k
                 \<le> of_int (2 ^ nat (b - ?k)) * 2 powi ?k"
      unfolding roundHalfEven_int by (intro mult_right_mono) auto
    then have rx: "roundDouble x \<le> 2 powi b"
      using x px by (simp add: roundDouble_def)
    have "of_int (2 ^ nat (b - ?l)) \<le> y / 2 powi ?l"
      using yb py by (simp add: field_simps)
    then have "roundHalfEven (of_int (2 ^ nat (b - ?l))) \<le> roundHalfEven (y / 2 powi ?l)"
      by (rule roundHalfEven_mono)
    then have "of_int (2 ^ nat (b - ?l)) * (2::real) powi ?l
                 \<le> of_int (roundHalfEven (y / 2 powi ?l)) * 2 powi ?l"
      unfolding roundHalfEven_int by (intro mult_right_mono) auto
    then have ry: "2 powi b \<le> roundDouble y"
      using y py by (simp add: roundDouble_def)
    from rx ry show ?thesis by linarith
  qed
qed

lemma roundDouble_exact:
  assumes "x \<noteq> 0" and "2 powi e \<le> \<bar>x\<bar>" and "\<bar>x\<bar> < 2 powi (e + 1)"
    and "x = of_int m * 2 powi (max e (- 1022) - 52)"
  shows "roundDouble x = x"
proof -
  have k: "ulpExponent x = max e (- 1022) - 52"
    using binade_unique [OF assms(1-3)] by (simp add: ulpExponent_def)
  have "x / 2 powi (max e (- 1022) - 52) = of_int m"
    using assms(4) by simp
  then have "roundHalfEven (x / 2 powi ulpExponent x) = m"
    unfolding k by (simp only: roundHalfEven_int)
  with assms(1,4) show ?thesis unfolding roundDouble_def k by simp
qed

lemma roundDouble_eval:
  assumes "x \<noteq> 0" and "2 powi e \<le> \<bar>x\<bar>" and "\<bar>x\<bar> < 2 powi (e + 1)"
  shows "roundDouble x
           = of_int (roundHalfEven (x / 2 powi (max e (- 1022) - 52))) * 2 powi (max e (- 1022) - 52)"
  using binade_unique [OF assms] assms(1) by (simp add: roundDouble_def ulpExponent_def)

lemma roundDouble_1: "roundDouble 1 = 1"
  by (rule roundDouble_exact [where e = 0 and m = "2 ^ 52"]) simp_all

lemma roundDouble_2: "roundDouble 2 = 2"
  by (rule roundDouble_exact [where e = 1 and m = "2 ^ 52"]) simp_all

lemma roundDouble_3: "roundDouble 3 = 3"
  by (rule roundDouble_exact [where e = 1 and m = "3 * 2 ^ 51"]) simp_all

lemma roundDouble_5: "roundDouble 5 = 5"
  by (rule roundDouble_exact [where e = 2 and m = "5 * 2 ^ 50"]) simp_all

lemma roundDouble_5_2: "roundDouble (5 / 2) = 5 / 2"
  by (rule roundDouble_exact [where e = 1 and m = "5 * 2 ^ 50"]) simp_all

lemma roundDouble_0: "roundDouble 0 = 0"
  by (simp add: roundDouble_def)

lemma delay_range:
  assumes "0 \<le> u" and "u < 1"
  shows "2 \<le> roundDouble (roundDouble (u * 3) + 2) \<and> roundDouble (roundDouble (u * 3) + 2) \<le> 5"
proof -
  have "0 \<le> u * 3" "u * 3 \<le> 3" using assms by auto
  then have a: "0 \<le> roundDouble (u * 3)" "roundDouble (u * 3) \<le> 3"
    using roundDouble_mono [of 0 "u * 3"] roundDouble_mono [of "u * 3" 3]
    by (simp_all add: roundDouble_0 roundDouble_3)
  then have "2 \<le> roundDouble (u * 3) + 2" "roundDouble (u * 3) + 2 \<le> 5" by auto
  then show ?thesis
    using roundDouble_mono [of 2 "roundDouble (u * 3) + 2"]
      roundDouble_mono [of "roundDouble (u * 3) + 2" 5]
    by (simp add: roundDouble_2 roundDouble_5)
qed

lemma SPEED_SCALE_default: "SPEED_SCALE False Unset = 1" "SPEED_SCALE True Unset = 1 / 2"
  by (simp_all add: SPEED_SCALE_def)

text \<open>
  C9 (as amended). For every draw \<open>u\<close> with \<open>0 \<le> u < 1\<close>, \<^verbatim>\<open>nextDelaySecs(2, 5)\<close> lies
  in the closed interval from 2 to 5 when the scale is 1 (the normal mode), and in the
  closed interval from 1 to 2.5 when the scale is 0.5 (the fast mode).
\<close>

theorem nextDelaySecs_range:
  assumes "0 \<le> u" and "u < 1"
  shows "2 \<le> nextDelaySecs u (SPEED_SCALE False Unset) (Some 2) (Some 5)
         \<and> nextDelaySecs u (SPEED_SCALE False Unset) (Some 2) (Some 5) \<le> 5
         \<and> 1 \<le> nextDelaySecs u (SPEED_SCALE True Unset) (Some 2) (Some 5)
         \<and> nextDelaySecs u (SPEED_SCALE True Unset) (Some 2) (Some 5) \<le> 5 / 2"
proof -
  let ?r = "roundDouble (roundDouble (u * 3) + 2)"
  have r: "2 \<le> ?r" "?r \<le> 5" using delay_range [OF assms] by auto
  have one: "2 \<le> roundDouble ?r" "roundDouble ?r \<le> 5"
    using roundDouble_mono [of 2 ?r] roundDouble_mono [of ?r 5] r
    by (simp_all add: roundDouble_2 roundDouble_5)
  have "1 \<le> ?r / 2" "?r / 2 \<le> 5 / 2" using r by auto
  then have half: "1 \<le> roundDouble (?r / 2)" "roundDouble (?r / 2) \<le> 5 / 2"
    using roundDouble_mono [of 1 "?r / 2"] roundDouble_mono [of "?r / 2" "5 / 2"]
    by (simp_all add: roundDouble_1 roundDouble_5_2)
  show ?thesis
    using one half by (simp add: nextDelaySecs_def SPEED_SCALE_default roundDouble_3 Let_def)
qed

lemma lastDraw_product: "roundDouble (lastDraw * 3) = 3 - 1 / 2 ^ 51"
proof -
  have v: "lastDraw * 3 / 2 powi (- 51) = 6755399441055743 + 1 / 4"
    by (simp add: lastDraw_def)
  have f: "\<lfloor>6755399441055743 + 1 / 4 :: real\<rfloor> = 6755399441055743"
    by (rule floor_unique) simp_all
  have h: "roundHalfEven (lastDraw * 3 / 2 powi (- 51)) = 6755399441055743"
    unfolding v by (simp add: roundHalfEven_def f Let_def)
  have "roundDouble (lastDraw * 3)
          = of_int (roundHalfEven (lastDraw * 3 / 2 powi (max 1 (- 1022) - 52)))
            * 2 powi (max 1 (- 1022) - 52)"
    by (rule roundDouble_eval) (simp_all add: lastDraw_def)
  then show ?thesis using h by simp
qed

lemma lastDraw_sum: "roundDouble (3 - 1 / 2 ^ 51 + 2) = 5"
proof -
  have v: "(3 - 1 / 2 ^ 51 + 2) / 2 powi (- 50) = (5629499534213119 + 1 / 2 :: real)"
    by simp
  have f: "\<lfloor>5629499534213119 + 1 / 2 :: real\<rfloor> = 5629499534213119"
    by (rule floor_unique) simp_all
  have h: "roundHalfEven ((3 - 1 / 2 ^ 51 + 2) / 2 powi (- 50)) = 5629499534213120"
    unfolding v by (simp add: roundHalfEven_def f Let_def)
  have "roundDouble (3 - 1 / 2 ^ 51 + 2)
          = of_int (roundHalfEven ((3 - 1 / 2 ^ 51 + 2) / 2 powi (max 2 (- 1022) - 52)))
            * 2 powi (max 2 (- 1022) - 52)"
    by (rule roundDouble_eval) simp_all
  then show ?thesis using h by simp
qed

lemma lastDraw_double: "roundDouble lastDraw = lastDraw"
  by (rule roundDouble_exact [where e = "- 1" and m = "2 ^ 53 - 1"]) (simp_all add: lastDraw_def)

text \<open>
  The half-open intervals of the specification fail at the greatest double below 1: the
  product with 3 rounds to \<open>3 - 2^(-51)\<close>, the sum with 2 lies half way between two
  doubles and rounds to the even one, which is 5.
\<close>

theorem nextDelaySecs_range_counterexample:
  "0 \<le> lastDraw \<and> lastDraw < 1 \<and> roundDouble lastDraw = lastDraw
   \<and> \<not> nextDelaySecs lastDraw (SPEED_SCALE False Unset) (Some 2) (Some 5) < 5
   \<and> \<not> nextDelaySecs lastDraw (SPEED_SCALE True Unset) (Some 2) (Some 5) < 5 / 2"
proof -
  have a: "0 \<le> lastDraw \<and> lastDraw < 1" by (simp add: lastDraw_def)
  have "5 - 2 = (3::real)" by simp
  then have p: "roundDouble (roundDouble (lastDraw * roundDouble (5 - 2)) + 2) = 5"
    by (simp only: roundDouble_3 lastDraw_product lastDraw_sum)
  have one: "nextDelaySecs lastDraw (SPEED_SCALE False Unset) (Some 2) (Some 5) = 5"
    unfolding nextDelaySecs_def Let_def option.case p SPEED_SCALE_default
    by (simp add: roundDouble_5)
  have half: "nextDelaySecs lastDraw (SPEED_SCALE True Unset) (Some 2) (Some 5) = 5 / 2"
    unfolding nextDelaySecs_def Let_def option.case p SPEED_SCALE_default
    using roundDouble_5_2 by simp
  from a lastDraw_double one half show ?thesis by simp
qed

theorem nextDelaySecs_range_witness:
  "(0::real) \<le> 1 / 2 \<and> (1 / 2 :: real) < 1
   \<and> 2 \<le> nextDelaySecs (1 / 2) (SPEED_SCALE False Unset) (Some 2) (Some 5)
   \<and> nextDelaySecs (1 / 2) (SPEED_SCALE False Unset) (Some 2) (Some 5) \<le> 5
   \<and> 1 \<le> nextDelaySecs (1 / 2) (SPEED_SCALE True Unset) (Some 2) (Some 5)
   \<and> nextDelaySecs (1 / 2) (SPEED_SCALE True Unset) (Some 2) (Some 5) \<le> 5 / 2"
  using nextDelaySecs_range [of "1 / 2"] by simp

end
